theory Spec2Isabelle
  imports Complex_Main "HOL-Library.Word" "HOL-Library.AList" "HOL-Library.Multiset"
begin

section \<open>Common ground: bytes, Python exceptions, decimal rendering\<close>

type_synonym byte = "8 word"
type_synonym bytes = "byte list"

text \<open>
  The exceptions that the modelled Python code raises.  Every raise of the source is an
  \<open>Inl\<close> branch of the model.
\<close>

datatype py_error =
    ValueError string
  | KeyError string
  | IndexError
  | ZeroDivisionError
  | StructError
  | OverflowError
  | TypeError string

text \<open>\<open>str(i)\<close> and the \<open>{i}\<close> of an f-string for a Python \<open>int\<close>: the decimal rendering.\<close>

definition digit_char :: "nat \<Rightarrow> char" where
  "digit_char d = char_of (48 + d)"

fun str_nat :: "nat \<Rightarrow> string" where
  "str_nat n = (if n < 10 then [digit_char n] else str_nat (n div 10) @ [digit_char (n mod 10)])"

declare str_nat.simps [simp del]

definition str_int :: "int \<Rightarrow> string" where
  "str_int i = (if i < 0 then CHR ''-'' # str_nat (nat (- i)) else str_nat (nat i))"

text \<open>
  Python slicing \<open>xs[a:b]\<close> (step 1): a negative index counts from the end, and both
  indices are clamped into \<open>[0, len(xs)]\<close>.
\<close>

definition py_clamp_index :: "int \<Rightarrow> int \<Rightarrow> int" where
  "py_clamp_index n i = (let j = (if i < 0 then i + n else i) in max 0 (min n j))"

definition py_slice :: "'a list \<Rightarrow> int \<Rightarrow> int \<Rightarrow> 'a list" where
  "py_slice xs a b =
     (let n = int (length xs); a' = py_clamp_index n a; b' = py_clamp_index n b
      in take (nat (b' - a')) (drop (nat a') xs))"

text \<open>\<open>range(n)\<close> for a Python \<open>int\<close> \<open>n\<close>: empty when \<open>n \<le> 0\<close>.\<close>

definition py_range :: "int \<Rightarrow> int list" where
  "py_range n = map int [0..<nat n]"

section \<open>Configuration (\<open>src/utils/config_loader.py\<close>)\<close>

record ReplicationConfig =
  default_factor :: int
  min_factor :: int
  max_factor :: int
  placement_strategy :: string

record MonitoringConfig =
  heartbeat_interval :: int
  failure_timeout :: int
  recovery_check_interval :: int
  enable_auto_recovery :: bool

record ChunkingConfig =
  small_file_threshold :: int
  medium_file_threshold :: int
  small_chunk_size :: int
  medium_chunk_size :: int
  large_chunk_size :: int

record StorageConfig =
  checksum_algorithm :: string
  verify_on_read :: bool
  verify_on_write :: bool

record Config =
  replication :: ReplicationConfig
  monitoring :: MonitoringConfig
  chunking :: ChunkingConfig
  storage :: StorageConfig

text \<open>The defaults of the dataclasses, used when no \<open>config.yaml\<close> is found.\<close>

definition default_config :: Config where
  "default_config =
     \<lparr> replication = \<lparr> default_factor = 3, min_factor = 2, max_factor = 5,
                         placement_strategy = ''diverse'' \<rparr>,
       monitoring = \<lparr> heartbeat_interval = 3, failure_timeout = 30,
                        recovery_check_interval = 5, enable_auto_recovery = True \<rparr>,
       chunking = \<lparr> small_file_threshold = 10 * 1024 * 1024,
                      medium_file_threshold = 100 * 1024 * 1024,
                      small_chunk_size = 512 * 1024,
                      medium_chunk_size = 2 * 1024 * 1024,
                      large_chunk_size = 10 * 1024 * 1024 \<rparr>,
       storage = \<lparr> checksum_algorithm = ''sha256'', verify_on_read = True,
                     verify_on_write = True \<rparr> \<rparr>"

section \<open>Core data structures (\<open>src/core/data_structures.py\<close>)\<close>

datatype TransferStatus = PENDING | IN_PROGRESS | COMPLETED | FAILED | CANCELLED

text \<open>
  \<open>hashlib\<close> is not code of this repository: the digest functions are a parameter
  \<open>H\<close>, mapping the algorithm name and the data to the hexadecimal digest.
  The timestamp \<open>created_at\<close> of a chunk plays no part in any operation modelled here
  and is left out.
\<close>

type_synonym hashlib = "string \<Rightarrow> bytes \<Rightarrow> string"

record FileChunk =
  chunk_id :: int
  size :: int
  data :: bytes
  checksum :: string
  status :: TransferStatus
  stored_nodes :: "string set"

definition supported_algorithms :: "string list" where
  "supported_algorithms = [''md5'', ''sha1'', ''sha256'', ''sha512'']"

definition compute_checksum :: "hashlib \<Rightarrow> bytes \<Rightarrow> string \<Rightarrow> py_error + string" where
  "compute_checksum H d algorithm =
     (if algorithm \<in> set supported_algorithms then Inr (H algorithm d)
      else Inl (ValueError ''Unsupported checksum algorithm''))"

definition verify_integrity :: "hashlib \<Rightarrow> FileChunk \<Rightarrow> string \<Rightarrow> py_error + bool" where
  "verify_integrity H c algorithm =
     (if algorithm \<in> set supported_algorithms then Inr (H algorithm (data c) = checksum c)
      else Inl (ValueError ''Unsupported checksum algorithm''))"

section \<open>Chunking (\<open>StorageVirtualNode._calculate_chunk_size\<close>, \<open>_generate_chunks\<close>)\<close>

definition calculate_chunk_size :: "Config \<Rightarrow> int \<Rightarrow> int" where
  "calculate_chunk_size cfg file_size =
     (if file_size < small_file_threshold (chunking cfg) then small_chunk_size (chunking cfg)
      else if file_size < medium_file_threshold (chunking cfg) then medium_chunk_size (chunking cfg)
      else large_chunk_size (chunking cfg))"

text \<open>
  \<open>math.ceil(file_size / chunk_size)\<close>.  The true division is a float division in the
  source; it is modelled by the exact integer ceiling, with which it agrees for every
  buffer size below \<open>2^53\<close>.  A zero chunk size raises \<open>ZeroDivisionError\<close>.
\<close>

definition ceil_div :: "int \<Rightarrow> int \<Rightarrow> py_error + int" where
  "ceil_div a b = (if b = 0 then Inl ZeroDivisionError else Inr (- ((- a) div b)))"

text \<open>
  The body of the loop \<open>for i in range(num_chunks)\<close>: the chunk built for index \<open>i\<close>.
\<close>

definition make_chunk :: "hashlib \<Rightarrow> string \<Rightarrow> bytes \<Rightarrow> int \<Rightarrow> int \<Rightarrow> int \<Rightarrow> py_error + FileChunk" where
  "make_chunk H algorithm file_data file_size chunk_sz i =
     (let start = i * chunk_sz;
          end' = min (start + chunk_sz) file_size;
          chunk_data = py_slice file_data start end'
      in case compute_checksum H chunk_data algorithm of
           Inl e \<Rightarrow> Inl e
         | Inr real_checksum \<Rightarrow>
             Inr \<lparr> chunk_id = i, size = int (length chunk_data), data = chunk_data,
                   checksum = real_checksum, status = PENDING, stored_nodes = {} \<rparr>)"

fun chunk_loop :: "hashlib \<Rightarrow> string \<Rightarrow> bytes \<Rightarrow> int \<Rightarrow> int \<Rightarrow> int list \<Rightarrow> FileChunk list
    \<Rightarrow> py_error + FileChunk list" where
  "chunk_loop H algorithm file_data file_size chunk_sz [] chunks = Inr chunks"
| "chunk_loop H algorithm file_data file_size chunk_sz (i # rest) chunks =
     (case make_chunk H algorithm file_data file_size chunk_sz i of
        Inl e \<Rightarrow> Inl e
      | Inr chunk \<Rightarrow> chunk_loop H algorithm file_data file_size chunk_sz rest (chunks @ [chunk]))"

definition generate_chunks :: "Config \<Rightarrow> hashlib \<Rightarrow> bytes \<Rightarrow> string \<Rightarrow> int \<Rightarrow> py_error + FileChunk list" where
  "generate_chunks cfg H file_data file_id file_size =
     (let chunk_sz = calculate_chunk_size cfg file_size
      in case ceil_div file_size chunk_sz of
           Inl e \<Rightarrow> Inl e
         | Inr num_chunks \<Rightarrow>
             chunk_loop H (checksum_algorithm (storage cfg)) file_data file_size chunk_sz
               (py_range num_chunks) [])"

record FileTransfer =
  file_id :: string
  file_name :: string
  total_size :: int
  chunks :: "FileChunk list"
  transfer_status :: TransferStatus
  source_node :: "string option"
  target_nodes :: "string set"
  replication_factor :: int

datatype NodeStatus = HEALTHY | DEGRADED | NODE_FAILED | RECOVERING | OFFLINE

section \<open>The simulated storage node (\<open>src/core/storage_node.py\<close>)\<close>

text \<open>
  A Python \<open>dict\<close> is an association list with distinct keys, in insertion order:
  \<open>d[k] = v\<close> is \<open>AList.update k v\<close> (in place for a known key, appended for a new one),
  \<open>del d[k]\<close> and \<open>d.pop(k, None)\<close> are \<open>AList.delete k\<close>, \<open>d.get(k)\<close> is \<open>map_of d k\<close>.
  Bandwidth amounts are floats in the source; they are modelled by exact rationals.
  Clock readings, sleeps, locks and the heartbeat thread are left out: every operation
  below is one call running alone.
\<close>

record StorageVirtualNode =
  node_id :: string
  cpu_capacity :: int
  memory_capacity :: int
  total_storage :: int
  bandwidth :: int
  config :: Config
  used_storage :: int
  active_transfers :: "(string \<times> FileTransfer) list"
  stored_files :: "(string \<times> FileTransfer) list"
  active_bandwidth_usage :: "(string \<times> rat) list"
  network_utilization :: rat
  total_requests_processed :: int
  total_data_transferred :: int
  failed_transfers :: int
  connections :: "(string \<times> int) list"
  node_status :: NodeStatus

text \<open>\<open>StorageVirtualNode.__init__\<close>: capacity in GB, bandwidth in Mbps.\<close>

definition new_node :: "string \<Rightarrow> int \<Rightarrow> int \<Rightarrow> int \<Rightarrow> int \<Rightarrow> Config \<Rightarrow> StorageVirtualNode" where
  "new_node nid cpu mem storage_capacity bw cfg =
     \<lparr> node_id = nid, cpu_capacity = cpu, memory_capacity = mem,
       total_storage = storage_capacity * 1024 * 1024 * 1024,
       bandwidth = bw * 1000000,
       config = cfg,
       used_storage = 0, active_transfers = [], stored_files = [],
       active_bandwidth_usage = [], network_utilization = 0,
       total_requests_processed = 0, total_data_transferred = 0, failed_transfers = 0,
       connections = [], node_status = HEALTHY \<rparr>"

definition add_connection :: "StorageVirtualNode \<Rightarrow> string \<Rightarrow> int \<Rightarrow> StorageVirtualNode" where
  "add_connection node other bw =
     node\<lparr> connections := AList.update other (bw * 1000000) (connections node) \<rparr>"

text \<open>
  \<open>initiate_file_transfer\<close>: \<open>None\<close> when the file does not fit, otherwise the
  transfer record, registered under \<open>active_transfers\<close>.
\<close>

definition initiate_file_transfer ::
  "hashlib \<Rightarrow> StorageVirtualNode \<Rightarrow> string \<Rightarrow> string \<Rightarrow> bytes \<Rightarrow> string option \<Rightarrow> int option
     \<Rightarrow> py_error + (StorageVirtualNode \<times> FileTransfer option)" where
  "initiate_file_transfer H node fid fname file_data src rf =
     (let file_size = int (length file_data);
          rf' = (case rf of None \<Rightarrow> default_factor (replication (config node)) | Some r \<Rightarrow> r)
      in if used_storage node + file_size > total_storage node then Inr (node, None)
         else case generate_chunks (config node) H file_data fid file_size of
                Inl e \<Rightarrow> Inl e
              | Inr cs \<Rightarrow>
                  (let transfer = \<lparr> file_id = fid, file_name = fname, total_size = file_size,
                                     chunks = cs, transfer_status = PENDING, source_node = src,
                                     target_nodes = {}, replication_factor = rf' \<rparr>
                   in Inr (node\<lparr> active_transfers := AList.update fid transfer (active_transfers node) \<rparr>,
                           Some transfer)))"

text \<open>The key of a chunk transfer in the bandwidth map: \<open>f"{file_id}_{chunk_id}"\<close>.\<close>

definition transfer_key :: "string \<Rightarrow> int \<Rightarrow> string" where
  "transfer_key fid cid = fid @ ''_'' @ str_int cid"

text \<open>
  \<open>next(c for c in transfer.chunks if c.chunk_id == chunk_id)\<close>: the position of the first
  chunk with that id, \<open>None\<close> for \<open>StopIteration\<close>.
\<close>

fun find_chunk_index :: "FileChunk list \<Rightarrow> int \<Rightarrow> nat option" where
  "find_chunk_index [] cid = None"
| "find_chunk_index (c # cs) cid =
     (if chunk_id c = cid then Some 0
      else case find_chunk_index cs cid of None \<Rightarrow> None | Some i \<Rightarrow> Some (Suc i))"

text \<open>
  The release loop \<open>for i in range(len(transfer.chunks)): usage.pop(f"{file_id}_{i}", None)\<close>.
\<close>

fun release_keys :: "string \<Rightarrow> int list \<Rightarrow> (string \<times> rat) list \<Rightarrow> (string \<times> rat) list" where
  "release_keys fid [] usage = usage"
| "release_keys fid (i # rest) usage = release_keys fid rest (AList.delete (transfer_key fid i) usage)"

definition usage_sum :: "(string \<times> rat) list \<Rightarrow> rat" where
  "usage_sum usage = sum_list (map snd usage)"

text \<open>
  \<open>process_chunk_transfer\<close>.  The result is the node after the call and the returned
  boolean; an unsupported checksum algorithm raises out of \<open>verify_integrity\<close>.
\<close>

definition process_chunk_transfer ::
  "hashlib \<Rightarrow> StorageVirtualNode \<Rightarrow> string \<Rightarrow> int \<Rightarrow> string \<Rightarrow> py_error + (StorageVirtualNode \<times> bool)" where
  "process_chunk_transfer H node fid cid src =
     (case map_of (active_transfers node) fid of
        None \<Rightarrow> Inr (node, False)
      | Some transfer \<Rightarrow>
          (case find_chunk_index (chunks transfer) cid of
             None \<Rightarrow> Inr (node, False)
           | Some idx \<Rightarrow>
               (let chunk = chunks transfer ! idx;
                    verified =
                      (if verify_on_write (storage (config node))
                       then verify_integrity H chunk (checksum_algorithm (storage (config node)))
                       else Inr True)
                in case verified of
                     Inl e \<Rightarrow> Inl e
                   | Inr False \<Rightarrow>
                       (let transfer' = transfer\<lparr> chunks := (chunks transfer)[idx := chunk\<lparr> status := FAILED \<rparr>] \<rparr>
                        in Inr (node\<lparr> active_transfers := AList.update fid transfer' (active_transfers node) \<rparr>,
                                False))
                   | Inr True \<Rightarrow>
                       (let connection_bandwidth =
                              (case map_of (connections node) src of
                                 None \<Rightarrow> bandwidth node | Some b \<Rightarrow> b);
                            available_bandwidth =
                              min (of_int (bandwidth node) - network_utilization node)
                                  (of_int connection_bandwidth)
                        in if available_bandwidth \<le> 0 then Inr (node, False)
                           else
                             (let bandwidth_used = available_bandwidth * (8 / 10);
                                  usage1 = AList.update (transfer_key fid cid) bandwidth_used
                                             (active_bandwidth_usage node);
                                  chunk' = chunk\<lparr> status := COMPLETED,
                                                  stored_nodes := insert (node_id node) (stored_nodes chunk) \<rparr>;
                                  transfer1 = transfer\<lparr> chunks := (chunks transfer)[idx := chunk'] \<rparr>;
                                  node1 = node\<lparr> active_bandwidth_usage := usage1,
                                                network_utilization := usage_sum usage1,
                                                total_data_transferred := total_data_transferred node + size chunk,
                                                active_transfers := AList.update fid transfer1 (active_transfers node) \<rparr>
                              in if list_all (\<lambda>c. status c = COMPLETED) (chunks transfer1)
                                 then
                                   (let transfer2 = transfer1\<lparr> transfer_status := COMPLETED \<rparr>;
                                        usage2 = release_keys fid (py_range (int (length (chunks transfer2)))) usage1
                                    in Inr (node1\<lparr> used_storage := used_storage node1 + total_size transfer2,
                                                    stored_files := AList.update fid transfer2 (stored_files node1),
                                                    active_transfers := AList.delete fid (active_transfers node1),
                                                    total_requests_processed := total_requests_processed node1 + 1,
                                                    active_bandwidth_usage := usage2,
                                                    network_utilization := usage_sum usage2 \<rparr>,
                                            True))
                                 else Inr (node1, True))))))"

definition complete_chunk_transfer :: "StorageVirtualNode \<Rightarrow> string \<Rightarrow> int \<Rightarrow> StorageVirtualNode" where
  "complete_chunk_transfer node fid cid =
     (let key = transfer_key fid cid
      in if key \<in> fst ` set (active_bandwidth_usage node)
         then (let usage' = AList.delete key (active_bandwidth_usage node)
               in node\<lparr> active_bandwidth_usage := usage', network_utilization := usage_sum usage' \<rparr>)
         else node)"

section \<open>Replica placement (\<open>ReplicationManager.select_replica_nodes\<close>)\<close>

text \<open>
  \<open>random.sample(population, k)\<close> is library code.  It raises \<open>ValueError\<close> unless
  \<open>0 \<le> k \<le> len(population)\<close> and otherwise returns the elements at \<open>k\<close> pairwise distinct
  positions.  The positions drawn are the parameter \<open>picks\<close>; \<open>sample_contract\<close> states what
  the library guarantees about them.
\<close>

definition py_sample :: "nat list \<Rightarrow> 'a list \<Rightarrow> int \<Rightarrow> py_error + 'a list" where
  "py_sample picks population k =
     (if k < 0 \<or> int (length population) < k
      then Inl (ValueError ''Sample larger than population or is negative'')
      else Inr (map (\<lambda>j. population ! j) picks))"

definition sample_contract :: "nat list \<Rightarrow> nat \<Rightarrow> int \<Rightarrow> bool" where
  "sample_contract picks n k =
     (int (length picks) = k \<and> distinct picks \<and> list_all (\<lambda>j. j < n) picks)"

definition free_space :: "StorageVirtualNode \<Rightarrow> int" where
  "free_space n = total_storage n - used_storage n"

text \<open>The filter that builds \<open>candidates\<close>.\<close>

definition candidates_of :: "StorageVirtualNode list \<Rightarrow> string set \<Rightarrow> int \<Rightarrow> StorageVirtualNode list" where
  "candidates_of available_nodes exclude_nodes chunk_sz =
     filter (\<lambda>n. node_id n \<notin> exclude_nodes \<and> total_storage n - used_storage n \<ge> chunk_sz)
       available_nodes"

text \<open>
  \<open>candidates.sort(key=lambda n: n.total_storage - n.used_storage, reverse=True)\<close>:
  Python's sort is stable, also with \<open>reverse=True\<close>, as is \<open>sort_key\<close> on the negated key.
\<close>

definition sort_by_free_desc :: "StorageVirtualNode list \<Rightarrow> StorageVirtualNode list" where
  "sort_by_free_desc cands = sort_key (\<lambda>n. - (total_storage n - used_storage n)) cands"

text \<open>\<open>range(0, n, step)\<close> for \<open>step \<ge> 1\<close>.\<close>

definition py_range_step :: "nat \<Rightarrow> nat \<Rightarrow> nat list" where
  "py_range_step n step = map (\<lambda>j. j * step) [0..<(n + step - 1) div step]"

text \<open>
  The first loop of the diverse strategy:
  \<open>for i in range(0, len(candidates), step): if len(selected) >= count: break;
  selected.append(candidates[i])\<close>.
\<close>

fun spread_loop :: "'a list \<Rightarrow> int \<Rightarrow> nat list \<Rightarrow> 'a list \<Rightarrow> 'a list" where
  "spread_loop cands cnt [] selected = selected"
| "spread_loop cands cnt (i # rest) selected =
     (if int (length selected) \<ge> cnt then selected
      else spread_loop cands cnt rest (selected @ [cands ! i]))"

text \<open>
  The second loop, \<open>while len(selected) < count and len(selected) < len(candidates)\<close>, whose
  body appends the first candidate not yet selected.  When the inner \<open>for\<close> finds none the
  body changes nothing and the loop does not end: the result is then \<open>None\<close>.
\<close>

partial_function (option) fill_loop :: "'a list \<Rightarrow> int \<Rightarrow> 'a list \<Rightarrow> 'a list option" where
  "fill_loop cands cnt selected =
     (if int (length selected) < cnt \<and> length selected < length cands
      then (case find (\<lambda>n. n \<notin> set selected) cands of
              Some n \<Rightarrow> fill_loop cands cnt (selected @ [n])
            | None \<Rightarrow> fill_loop cands cnt selected)
      else Some selected)"

text \<open>
  \<open>select_replica_nodes\<close>.  \<open>None\<close> stands for a call that does not return, \<open>Some (Inl e)\<close>
  for a raised exception (\<open>len(candidates) // count\<close> with \<open>count = 0\<close>, or \<open>random.sample\<close>
  with a negative \<open>count\<close>), \<open>Some (Inr selected)\<close> for the returned list.
\<close>

definition select_replica_nodes ::
  "Config \<Rightarrow> nat list \<Rightarrow> StorageVirtualNode list \<Rightarrow> int \<Rightarrow> string set \<Rightarrow> int
     \<Rightarrow> (py_error + StorageVirtualNode list) option" where
  "select_replica_nodes cfg picks available_nodes cnt exclude_nodes chunk_sz =
     (let candidates = candidates_of available_nodes exclude_nodes chunk_sz
      in if int (length candidates) < cnt then Some (Inr candidates)
         else
           (let strategy = placement_strategy (replication cfg)
            in if strategy = ''random'' then Some (py_sample picks candidates cnt)
               else if strategy = ''least_loaded''
               then Some (Inr (py_slice (sort_by_free_desc candidates) 0 cnt))
               else if strategy = ''diverse''
               then (let sorted_cands = sort_by_free_desc candidates
                     in if cnt = 0 then Some (Inl ZeroDivisionError)
                        else
                          (let step = max 1 (int (length sorted_cands) div cnt);
                               selected = spread_loop sorted_cands cnt
                                            (py_range_step (length sorted_cands) (nat step)) []
                           in case fill_loop sorted_cands cnt selected of
                                None \<Rightarrow> None
                              | Some sel \<Rightarrow> Some (Inr sel)))
               else Some (py_sample picks candidates cnt)))"

text \<open>
  A pool of five nodes of 100 GB each whose free space is 70, 90, 50, 80 and 60 GiB,
  for evaluating the placement on concrete data.
\<close>

definition pool_node :: "string \<Rightarrow> int \<Rightarrow> StorageVirtualNode" where
  "pool_node nid used_gb =
     (new_node nid 4 8 100 100 default_config)\<lparr> used_storage := used_gb * 1024 * 1024 * 1024 \<rparr>"

definition pool5 :: "StorageVirtualNode list" where
  "pool5 = [pool_node ''node-0'' 30, pool_node ''node-1'' 10, pool_node ''node-2'' 50,
            pool_node ''node-3'' 20, pool_node ''node-4'' 40]"

definition random_config :: Config where
  "random_config = default_config\<lparr> replication :=
     (replication default_config)\<lparr> placement_strategy := ''random'' \<rparr> \<rparr>"

section \<open>The heartbeat monitor (\<open>src/monitoring/heartbeat_monitor.py\<close>)\<close>

text \<open>
  A \<open>datetime\<close> is a number of microseconds, a \<open>timedelta\<close> a difference of two.  The
  metrics snapshot carried by a heartbeat is opaque to the monitor: its type is a parameter.
  The two callbacks are arbitrary callables, called inside \<open>try/except\<close>: the model records
  whether one is registered and, in \<open>events\<close>, every call made, in order.
\<close>

record 'm HeartbeatMessage =
  hb_node_id :: string
  hb_status :: NodeStatus
  hb_metrics :: "'m option"

datatype monitor_event = NodeFailure string | NodeRecovery string

record 'm HeartbeatMonitor =
  hm_config :: Config
  last_heartbeat :: "(string \<times> int) list"
  heartbeat_history :: "(string \<times> (int \<times> NodeStatus \<times> 'm option) list) list"
  healthy_nodes :: "string set"
  failed_nodes :: "string set"
  recovering_nodes :: "string set"
  on_node_failure :: bool
  on_node_recovery :: bool
  total_failures :: int
  total_recoveries :: int
  events :: "monitor_event list"

definition new_monitor :: "Config \<Rightarrow> 'm HeartbeatMonitor" where
  "new_monitor cfg =
     \<lparr> hm_config = cfg, last_heartbeat = [], heartbeat_history = [],
       healthy_nodes = {}, failed_nodes = {}, recovering_nodes = {},
       on_node_failure = False, on_node_recovery = False,
       total_failures = 0, total_recoveries = 0, events = [] \<rparr>"

definition register_failure_callback :: "'m HeartbeatMonitor \<Rightarrow> 'm HeartbeatMonitor" where
  "register_failure_callback m = m\<lparr> on_node_failure := True \<rparr>"

definition register_recovery_callback :: "'m HeartbeatMonitor \<Rightarrow> 'm HeartbeatMonitor" where
  "register_recovery_callback m = m\<lparr> on_node_recovery := True \<rparr>"

definition mark_node_failed :: "'m HeartbeatMonitor \<Rightarrow> string \<Rightarrow> 'm HeartbeatMonitor" where
  "mark_node_failed m nid =
     m\<lparr> healthy_nodes := healthy_nodes m - {nid},
        failed_nodes := insert nid (failed_nodes m),
        total_failures := total_failures m + 1,
        events := events m @ (if on_node_failure m then [NodeFailure nid] else []) \<rparr>"

definition mark_node_recovered :: "'m HeartbeatMonitor \<Rightarrow> string \<Rightarrow> 'm HeartbeatMonitor" where
  "mark_node_recovered m nid =
     m\<lparr> failed_nodes := failed_nodes m - {nid},
        healthy_nodes := insert nid (healthy_nodes m),
        total_recoveries := total_recoveries m + 1,
        events := events m @ (if on_node_recovery m then [NodeRecovery nid] else []) \<rparr>"

text \<open>\<open>receive_heartbeat\<close>, with the reading \<open>now\<close> of the clock.\<close>

definition receive_heartbeat :: "'m HeartbeatMonitor \<Rightarrow> 'm HeartbeatMessage \<Rightarrow> int \<Rightarrow> 'm HeartbeatMonitor" where
  "receive_heartbeat m heartbeat now =
     (let nid = hb_node_id heartbeat;
          history = (case map_of (heartbeat_history m) nid of None \<Rightarrow> [] | Some h \<Rightarrow> h)
                      @ [(now, hb_status heartbeat, hb_metrics heartbeat)];
          history' = (if length history > 100 then tl history else history);
          m1 = m\<lparr> last_heartbeat := AList.update nid now (last_heartbeat m),
                   heartbeat_history := AList.update nid history' (heartbeat_history m) \<rparr>
      in if nid \<in> failed_nodes m1 then mark_node_recovered m1 nid
         else if nid \<notin> healthy_nodes m1 then m1\<lparr> healthy_nodes := insert nid (healthy_nodes m1) \<rparr>
         else m1)"

text \<open>
  \<open>_check_all_nodes\<close>: the body of the loop for one entry of \<open>last_heartbeat\<close>, and the loop
  over \<open>list(self.last_heartbeat.items())\<close>.  \<open>failure_timeout\<close> is in seconds.
\<close>

definition check_node :: "'m HeartbeatMonitor \<Rightarrow> int \<Rightarrow> int \<Rightarrow> string \<times> int \<Rightarrow> 'm HeartbeatMonitor" where
  "check_node m now timeout entry =
     (let nid = fst entry; last_hb = snd entry; time_since_heartbeat = now - last_hb
      in if time_since_heartbeat > timeout
         then (if nid \<notin> failed_nodes m then mark_node_failed m nid else m)
         else (if nid \<in> failed_nodes m then mark_node_recovered m nid
               else if nid \<notin> healthy_nodes m then m\<lparr> healthy_nodes := insert nid (healthy_nodes m) \<rparr>
               else m))"

fun check_loop :: "'m HeartbeatMonitor \<Rightarrow> int \<Rightarrow> int \<Rightarrow> (string \<times> int) list \<Rightarrow> 'm HeartbeatMonitor" where
  "check_loop m now timeout [] = m"
| "check_loop m now timeout (entry # rest) = check_loop (check_node m now timeout entry) now timeout rest"

text \<open>
  \<open>timedelta(seconds=s)\<close> for a Python \<open>int\<close> \<open>s\<close>, in microseconds.  A \<open>timedelta\<close> holds between
  \<open>-999999999\<close> days and \<open>999999999\<close> days, 23:59:59; outside, the constructor raises
  \<open>OverflowError\<close>.
\<close>

definition timedelta_seconds :: "int \<Rightarrow> py_error + int" where
  "timedelta_seconds s =
     (if - 999999999 * 86400 \<le> s \<and> s \<le> 999999999 * 86400 + 86399
      then Inr (s * 1000000) else Inl OverflowError)"

text \<open>
  The sweep builds the timeout before it enters the loop, so an \<open>OverflowError\<close> leaves the
  monitor as it was (\<open>_monitor_loop\<close> catches and logs it).
\<close>

definition check_all_nodes :: "'m HeartbeatMonitor \<Rightarrow> int \<Rightarrow> py_error + 'm HeartbeatMonitor" where
  "check_all_nodes m now =
     (case timedelta_seconds (failure_timeout (monitoring (hm_config m))) of
        Inl e \<Rightarrow> Inl e
      | Inr timeout \<Rightarrow> Inr (check_loop m now timeout (last_heartbeat m)))"

text \<open>The calls made by an operation: the events of the state after it beyond those before.\<close>

definition fired :: "'m HeartbeatMonitor \<Rightarrow> 'm HeartbeatMonitor \<Rightarrow> monitor_event list" where
  "fired m m' = drop (length (events m)) (events m')"

text \<open>A monitor with both callbacks registered, for evaluation on concrete data.\<close>

definition wired_monitor :: "unit HeartbeatMonitor" where
  "wired_monitor = register_recovery_callback (register_failure_callback (new_monitor default_config))"

definition beat :: "string \<Rightarrow> unit HeartbeatMessage" where
  "beat nid = \<lparr> hb_node_id = nid, hb_status = HEALTHY, hb_metrics = None \<rparr>"

text \<open>Two nodes seen at 0 s and at 20 s.\<close>

definition monitor_two :: "unit HeartbeatMonitor" where
  "monitor_two =
     receive_heartbeat (receive_heartbeat wired_monitor (beat ''node-1'') 0) (beat ''node-2'') 20000000"

text \<open>A monitor whose configured timeout is one second more than a \<open>timedelta\<close> can hold.\<close>

definition monitor_overflow :: "unit HeartbeatMonitor" where
  "monitor_overflow =
     receive_heartbeat
       (new_monitor (default_config\<lparr> monitoring :=
          (monitoring default_config)\<lparr> failure_timeout := 86400000000000 \<rparr> \<rparr>))
       (beat ''node-1'') 0"

text \<open>
  The outcome of \<open>_check_all_nodes\<close> for one entry, read off the state before the sweep,
  whether a node's last heartbeat is older than the timeout, and whether the monitor has ever
  heard from a node (the keys of \<open>last_heartbeat\<close>).
\<close>

definition known_node :: "'m HeartbeatMonitor \<Rightarrow> string \<Rightarrow> bool" where
  "known_node m nid = (map_of (last_heartbeat m) nid \<noteq> None)"

definition node_events :: "'m HeartbeatMonitor \<Rightarrow> int \<Rightarrow> int \<Rightarrow> string \<times> int \<Rightarrow> monitor_event list" where
  "node_events m now to e =
     (if now - snd e > to
      then (if fst e \<notin> failed_nodes m \<and> on_node_failure m then [NodeFailure (fst e)] else [])
      else (if fst e \<in> failed_nodes m \<and> on_node_recovery m then [NodeRecovery (fst e)] else []))"

definition timed_out :: "'m HeartbeatMonitor \<Rightarrow> int \<Rightarrow> string \<Rightarrow> bool" where
  "timed_out m now nid =
     (case map_of (last_heartbeat m) nid of
        None \<Rightarrow> False
      | Some last_hb \<Rightarrow> now - last_hb > failure_timeout (monitoring (hm_config m)) * 1000000)"

section \<open>The distributed storage node (\<open>src/distributed/distributed_node.py\<close>)\<close>

datatype MessageType =
    REGISTER_NODE | NODE_REGISTERED | DISCOVER_NODES | NODES_LIST
  | HEARTBEAT | HEARTBEAT_ACK
  | UPLOAD_FILE | UPLOAD_ACK | DOWNLOAD_FILE | FILE_DATA
  | STORE_CHUNK | CHUNK_STORED | GET_CHUNK | CHUNK_DATA | REPLICATE_CHUNK
  | GET_STATUS | STATUS_RESPONSE | NODE_FAILURE
  | ERROR | SUCCESS

text \<open>
  The entries of \<open>message.data\<close> that the handlers read: \<open>file_id\<close> (a string), \<open>chunk_id\<close>
  (an integer) and \<open>_binary_data\<close>, the binary payload that the server puts there when the
  frame carried one.  An absent entry is \<open>None\<close>.
\<close>

record NodeMessage =
  nm_type :: MessageType
  nm_file_id :: "string option"
  nm_chunk_id :: "int option"
  nm_binary_data :: "bytes option"

text \<open>The replies a node sends: the envelope's fields and, for \<open>CHUNK_DATA\<close>, the payload.\<close>

datatype reply =
    Success_reply (r_file_id: string) (r_chunk_id: int) (r_checksum: string) (r_size: int)
      (r_sender: string)
  | Chunk_data_reply (r_file_id: string) (r_chunk_id: int) (r_checksum: string) (r_size: int)
      (r_sender: string) (r_payload: bytes)
  | Status_reply (r_sender: string) (r_capacity: int) (r_used: int) (r_free: int)
      (r_num_chunks: nat) (r_running: bool)
  | Ack_reply (r_sender: string)
  | Error_reply py_error
  | Unknown_type_reply MessageType

record DistributedStorageNode =
  dn_node_id :: string
  storage_capacity :: int
  stored_chunks :: "(string \<times> FileChunk) list"
  dn_used_storage :: int
  running :: bool
  registered :: bool

definition new_distributed_node :: "string \<Rightarrow> int \<Rightarrow> DistributedStorageNode" where
  "new_distributed_node nid capacity =
     \<lparr> dn_node_id = nid, storage_capacity = capacity, stored_chunks = [],
       dn_used_storage = 0, running = False, registered = False \<rparr>"

text \<open>The key of a stored chunk: \<open>f"{file_id}_{chunk_id}"\<close>.\<close>

definition chunk_key :: "string \<Rightarrow> int \<Rightarrow> string" where
  "chunk_key fid cid = fid @ ''_'' @ str_int cid"

definition handle_store_chunk ::
  "hashlib \<Rightarrow> DistributedStorageNode \<Rightarrow> NodeMessage \<Rightarrow> py_error + (DistributedStorageNode \<times> reply)" where
  "handle_store_chunk H node message =
     (case nm_file_id message of
        None \<Rightarrow> Inl (KeyError ''file_id'')
      | Some fid \<Rightarrow>
          (case nm_chunk_id message of
             None \<Rightarrow> Inl (KeyError ''chunk_id'')
           | Some cid \<Rightarrow>
               (case nm_binary_data message of
                  None \<Rightarrow> Inl (ValueError ''No chunk data provided'')
                | Some chunk_data \<Rightarrow>
                    if chunk_data = [] then Inl (ValueError ''No chunk data provided'')
                    else
                      (let checksum' = H ''sha256'' chunk_data;
                           chunk = \<lparr> chunk_id = cid, size = int (length chunk_data),
                                     data = chunk_data, checksum = checksum',
                                     status = COMPLETED, stored_nodes = {} \<rparr>;
                           key = chunk_key fid cid
                       in Inr (node\<lparr> stored_chunks := AList.update key chunk (stored_chunks node),
                                      dn_used_storage := dn_used_storage node + int (length chunk_data) \<rparr>,
                               Success_reply fid cid checksum' (int (length chunk_data))
                                 (dn_node_id node))))))"

definition handle_get_chunk :: "DistributedStorageNode \<Rightarrow> NodeMessage \<Rightarrow> py_error + reply" where
  "handle_get_chunk node message =
     (case nm_file_id message of
        None \<Rightarrow> Inl (KeyError ''file_id'')
      | Some fid \<Rightarrow>
          (case nm_chunk_id message of
             None \<Rightarrow> Inl (KeyError ''chunk_id'')
           | Some cid \<Rightarrow>
               (case map_of (stored_chunks node) (chunk_key fid cid) of
                  None \<Rightarrow> Inl (ValueError (''Chunk '' @ chunk_key fid cid @ '' not found''))
                | Some chunk \<Rightarrow>
                    Inr (Chunk_data_reply fid cid (checksum chunk) (size chunk) (dn_node_id node)
                           (data chunk)))))"

definition handle_get_status :: "DistributedStorageNode \<Rightarrow> reply" where
  "handle_get_status node =
     Status_reply (dn_node_id node) (storage_capacity node) (dn_used_storage node)
       (storage_capacity node - dn_used_storage node) (length (stored_chunks node)) (running node)"

text \<open>
  \<open>_handle_message\<close>: the dispatch on the message type.  The reply is what the handler
  hands to \<open>send_message\<close>.  An exception raised by a handler is caught and answered by an
  error reply made from it, a message of any other type by an error reply naming the type.
\<close>

definition handle_message ::
  "hashlib \<Rightarrow> DistributedStorageNode \<Rightarrow> NodeMessage \<Rightarrow> DistributedStorageNode \<times> reply" where
  "handle_message H node message =
     (if nm_type message = STORE_CHUNK
      then (case handle_store_chunk H node message of
              Inl e \<Rightarrow> (node, Error_reply e)
            | Inr (node', r) \<Rightarrow> (node', r))
      else if nm_type message = GET_CHUNK
      then (case handle_get_chunk node message of
              Inl e \<Rightarrow> (node, Error_reply e)
            | Inr r \<Rightarrow> (node, r))
      else if nm_type message = GET_STATUS then (node, handle_get_status node)
      else if nm_type message = REPLICATE_CHUNK then (node, Ack_reply (dn_node_id node))
      else (node, Unknown_type_reply (nm_type message)))"

text \<open>A node serving a sequence of messages, one after the other.\<close>

fun serve :: "hashlib \<Rightarrow> DistributedStorageNode \<Rightarrow> NodeMessage list \<Rightarrow> DistributedStorageNode" where
  "serve H node [] = node"
| "serve H node (message # rest) = serve H (fst (handle_message H node message)) rest"


definition store_message :: "string \<Rightarrow> int \<Rightarrow> bytes \<Rightarrow> NodeMessage" where
  "store_message fid cid payload =
     \<lparr> nm_type = STORE_CHUNK, nm_file_id = Some fid, nm_chunk_id = Some cid,
       nm_binary_data = Some payload \<rparr>"


text \<open>The bytes that a node actually holds: the sizes of its stored chunks, summed.\<close>

definition held_bytes :: "DistributedStorageNode \<Rightarrow> int" where
  "held_bytes node = sum_list (map (\<lambda>kv. size (snd kv)) (stored_chunks node))"

text \<open>
  A digest for statements evaluated on concrete data: the data itself, read as text.  It
  tells any two byte strings apart.  Every general theorem is proved for an arbitrary
  digest function \<open>H\<close>.
\<close>

definition plain_digest :: hashlib where
  "plain_digest algorithm d = map (\<lambda>b. char_of (unat b)) d"

text \<open>
  What every node reached by serving messages satisfies: one entry per key, no empty chunk,
  and no more bytes held than accounted.
\<close>

definition dnode_inv :: "DistributedStorageNode \<Rightarrow> bool" where
  "dnode_inv node =
     (distinct (map fst (stored_chunks node)) \<and>
      list_all (\<lambda>kv. 0 < size (snd kv)) (stored_chunks node) \<and>
      held_bytes node \<le> dn_used_storage node)"

text \<open>A node of 1000 bytes, and one of 10 bytes, for statements evaluated on concrete data.\<close>

definition demo_node :: DistributedStorageNode where
  "demo_node = new_distributed_node ''node-1'' 1000"

definition tiny_node :: DistributedStorageNode where
  "tiny_node = new_distributed_node ''node-1'' 10"

section \<open>The wire protocol (\<open>src/network/protocol.py\<close>)\<close>

text \<open>
  The \<open>data\<close> of a message is whatever \<open>json.dumps\<close> accepts.  \<open>None\<close> is \<open>JNull\<close>, a
  \<open>dict\<close> is \<open>JObj\<close> with its items in order.  The module \<open>json\<close> is library code: the
  model takes \<open>dumps\<close>, for \<open>json.dumps(d).encode('utf-8')\<close>, and \<open>loads\<close>, for
  \<open>json.loads(bs.decode('utf-8'))\<close> with its decoding errors, as parameters.
\<close>

datatype json =
    JNull
  | JBool bool
  | JNum int
  | JStr string
  | JArr "json list"
  | JObj "(string \<times> json) list"

type_synonym json_dumps = "json \<Rightarrow> bytes"
type_synonym json_loads = "bytes \<Rightarrow> py_error + json"

text \<open>The value of each member of the enumeration \<open>MessageType\<close> is its name.\<close>

fun type_value :: "MessageType \<Rightarrow> string" where
  "type_value REGISTER_NODE = ''REGISTER_NODE''"
| "type_value NODE_REGISTERED = ''NODE_REGISTERED''"
| "type_value DISCOVER_NODES = ''DISCOVER_NODES''"
| "type_value NODES_LIST = ''NODES_LIST''"
| "type_value HEARTBEAT = ''HEARTBEAT''"
| "type_value HEARTBEAT_ACK = ''HEARTBEAT_ACK''"
| "type_value UPLOAD_FILE = ''UPLOAD_FILE''"
| "type_value UPLOAD_ACK = ''UPLOAD_ACK''"
| "type_value DOWNLOAD_FILE = ''DOWNLOAD_FILE''"
| "type_value FILE_DATA = ''FILE_DATA''"
| "type_value STORE_CHUNK = ''STORE_CHUNK''"
| "type_value CHUNK_STORED = ''CHUNK_STORED''"
| "type_value GET_CHUNK = ''GET_CHUNK''"
| "type_value CHUNK_DATA = ''CHUNK_DATA''"
| "type_value REPLICATE_CHUNK = ''REPLICATE_CHUNK''"
| "type_value GET_STATUS = ''GET_STATUS''"
| "type_value STATUS_RESPONSE = ''STATUS_RESPONSE''"
| "type_value NODE_FAILURE = ''NODE_FAILURE''"
| "type_value ERROR = ''ERROR''"
| "type_value SUCCESS = ''SUCCESS''"

definition all_message_types :: "MessageType list" where
  "all_message_types =
     [REGISTER_NODE, NODE_REGISTERED, DISCOVER_NODES, NODES_LIST, HEARTBEAT, HEARTBEAT_ACK,
      UPLOAD_FILE, UPLOAD_ACK, DOWNLOAD_FILE, FILE_DATA, STORE_CHUNK, CHUNK_STORED, GET_CHUNK,
      CHUNK_DATA, REPLICATE_CHUNK, GET_STATUS, STATUS_RESPONSE, NODE_FAILURE, ERROR, SUCCESS]"

text \<open>\<open>MessageType(v)\<close>: the member whose value is \<open>v\<close>, \<open>ValueError\<close> when there is none.\<close>

definition message_type_of :: "json \<Rightarrow> py_error + MessageType" where
  "message_type_of v =
     (case v of
        JStr s \<Rightarrow>
          (case find (\<lambda>t. type_value t = s) all_message_types of
             Some t \<Rightarrow> Inr t
           | None \<Rightarrow> Inl (ValueError ''not a valid MessageType''))
      | _ \<Rightarrow> Inl (ValueError ''not a valid MessageType''))"

text \<open>
  The dataclass \<open>Message\<close>.  The annotations \<open>Optional[str]\<close> of \<open>sender_id\<close> and
  \<open>request_id\<close> are not enforced: \<open>from_dict\<close> takes whatever the document holds.
\<close>

record Message =
  msg_type :: MessageType
  msg_data :: json
  sender_id :: json
  request_id :: json

definition to_dict :: "Message \<Rightarrow> json" where
  "to_dict m =
     JObj [(''msg_type'', JStr (type_value (msg_type m))),
           (''data'', msg_data m),
           (''sender_id'', sender_id m),
           (''request_id'', request_id m)]"

text \<open>
  \<open>from_dict\<close>: \<open>d['msg_type']\<close> and \<open>d['data']\<close> raise \<open>KeyError\<close> for a missing key,
  \<open>d.get\<close> gives \<open>None\<close>; a document that is not an object has no such items.
\<close>

definition from_dict :: "json \<Rightarrow> py_error + Message" where
  "from_dict d =
     (case d of
        JObj items \<Rightarrow>
          (case map_of items ''msg_type'' of
             None \<Rightarrow> Inl (KeyError ''msg_type'')
           | Some v \<Rightarrow>
               (case message_type_of v of
                  Inl e \<Rightarrow> Inl e
                | Inr t \<Rightarrow>
                    (case map_of items ''data'' of
                       None \<Rightarrow> Inl (KeyError ''data'')
                     | Some dv \<Rightarrow>
                         Inr \<lparr> msg_type = t, msg_data = dv,
                               sender_id = (case map_of items ''sender_id'' of None \<Rightarrow> JNull | Some s \<Rightarrow> s),
                               request_id = (case map_of items ''request_id'' of None \<Rightarrow> JNull | Some r \<Rightarrow> r) \<rparr>)))
      | _ \<Rightarrow> Inl (TypeError ''document is not an object''))"

definition to_json :: "json_dumps \<Rightarrow> Message \<Rightarrow> bytes" where
  "to_json dumps m = dumps (to_dict m)"

definition from_json :: "json_loads \<Rightarrow> bytes \<Rightarrow> py_error + Message" where
  "from_json loads bs = (case loads bs of Inl e \<Rightarrow> Inl e | Inr d \<Rightarrow> from_dict d)"

text \<open>
  \<open>struct.pack('>I', n)\<close>: four bytes, most significant first; \<open>struct.error\<close> unless
  \<open>0 \<le> n < 2^32\<close>.  \<open>struct.unpack('>I', bs)[0]\<close> for four bytes \<open>bs\<close>.
\<close>

definition pack_u32 :: "int \<Rightarrow> py_error + bytes" where
  "pack_u32 n =
     (if 0 \<le> n \<and> n < 4294967296
      then Inr [word_of_int (n div 16777216), word_of_int (n div 65536),
                word_of_int (n div 256), word_of_int n]
      else Inl StructError)"

definition unpack_u32 :: "bytes \<Rightarrow> py_error + int" where
  "unpack_u32 bs =
     (case bs of
        [a, b, c, d] \<Rightarrow> Inr (uint a * 16777216 + uint b * 65536 + uint c * 256 + uint d)
      | _ \<Rightarrow> Inl StructError)"

definition HEADER_SIZE :: int where "HEADER_SIZE = 4"
definition JSON_LENGTH_SIZE :: int where "JSON_LENGTH_SIZE = 4"
definition MAX_MESSAGE_SIZE :: int where "MAX_MESSAGE_SIZE = 100 * 1024 * 1024"

text \<open>
  \<open>ProtocolHandler.encode_message\<close>.  \<open>if binary_data\<close> is false for \<open>None\<close> and for
  \<open>b''\<close>, whose length is 0 either way.
\<close>

definition encode_message :: "json_dumps \<Rightarrow> Message \<Rightarrow> bytes option \<Rightarrow> py_error + bytes" where
  "encode_message dumps message binary_data =
     (let json_bytes = to_json dumps message;
          json_length = int (length json_bytes);
          binary_length = (case binary_data of None \<Rightarrow> 0 | Some b \<Rightarrow> int (length b));
          total_length = JSON_LENGTH_SIZE + json_length + binary_length
      in case pack_u32 total_length of
           Inl e \<Rightarrow> Inl e
         | Inr header \<Rightarrow>
             (case pack_u32 json_length of
                Inl e \<Rightarrow> Inl e
              | Inr json_header \<Rightarrow>
                  (case binary_data of
                     None \<Rightarrow> Inr (header @ json_header @ json_bytes)
                   | Some b \<Rightarrow>
                       if b \<noteq> [] then Inr (header @ json_header @ json_bytes @ b)
                       else Inr (header @ json_header @ json_bytes))))"

definition decode_message :: "json_loads \<Rightarrow> bytes \<Rightarrow> py_error + (Message \<times> bytes option)" where
  "decode_message loads d =
     (if int (length d) < HEADER_SIZE then Inl (ValueError ''Data too short for protocol header'')
      else
        case unpack_u32 (py_slice d 0 HEADER_SIZE) of
          Inl e \<Rightarrow> Inl e
        | Inr total_length \<Rightarrow>
            if total_length > MAX_MESSAGE_SIZE
            then Inl (ValueError (''Message too large: '' @ str_int total_length @ '' bytes''))
            else
              (let payload = py_slice d HEADER_SIZE (HEADER_SIZE + total_length)
               in if int (length payload) < JSON_LENGTH_SIZE
                  then Inl (ValueError ''Payload too short for JSON length header'')
                  else
                    case unpack_u32 (py_slice payload 0 JSON_LENGTH_SIZE) of
                      Inl e \<Rightarrow> Inl e
                    | Inr json_length \<Rightarrow>
                        if json_length < 0 \<or> json_length > total_length - JSON_LENGTH_SIZE
                        then Inl (ValueError ''Invalid JSON length in payload'')
                        else
                          (let json_start = JSON_LENGTH_SIZE;
                               json_end = json_start + json_length;
                               json_bytes = py_slice payload json_start json_end
                           in case from_json loads json_bytes of
                                Inl e \<Rightarrow> Inl e
                              | Inr message \<Rightarrow>
                                  Inr (message,
                                       if json_end < int (length payload)
                                       then Some (drop (nat json_end) payload)
                                       else None))))"

text \<open>\<open>decode_message(encode_message(m, b))\<close>: an exception of either call is the outcome.\<close>

definition decode_encoded ::
  "json_dumps \<Rightarrow> json_loads \<Rightarrow> Message \<Rightarrow> bytes option \<Rightarrow> py_error + (Message \<times> bytes option)" where
  "decode_encoded dumps loads m b =
     (case encode_message dumps m b of Inl e \<Rightarrow> Inl e | Inr wire \<Rightarrow> decode_message loads wire)"

text \<open>The bytes that a payload adds to the frame: none for \<open>None\<close> and for \<open>b''\<close>.\<close>

definition payload_bytes :: "bytes option \<Rightarrow> bytes" where
  "payload_bytes binary_data = (case binary_data of None \<Rightarrow> [] | Some b \<Rightarrow> b)"

text \<open>
  A message and a codec for statements evaluated on concrete data.  The codec knows one
  document, the dictionary of that message, in the text that \<open>json.dumps\<close> gives it.
\<close>

definition demo_message :: Message where
  "demo_message =
     \<lparr> msg_type = GET_CHUNK,
       msg_data = JObj [(''file_id'', JStr ''f''), (''chunk_id'', JNum 0)],
       sender_id = JStr ''client'', request_id = JNull \<rparr>"

definition demo_text :: bytes where
  \<open>demo_text = map of_char
     ''{"msg_type": "GET_CHUNK", "data": {"file_id": "f", "chunk_id": 0}, "sender_id": "client", "request_id": null}''\<close>

definition demo_dumps :: json_dumps where
  "demo_dumps v = (if v = to_dict demo_message then demo_text else [])"

definition demo_loads :: json_loads where
  "demo_loads bs =
     (if bs = demo_text then Inr (to_dict demo_message) else Inl (ValueError ''JSONDecodeError''))"

(*PROOFS*)

section \<open>Verification of the chunker\<close>

lemma py_slice_nonneg:
  "0 \<le> a \<Longrightarrow> a \<le> b \<Longrightarrow> py_slice xs a b = take (nat b - nat a) (drop (nat a) xs)"
  unfolding py_slice_def py_clamp_index_def Let_def
  by (cases "a \<le> int (length xs)"; cases "b \<le> int (length xs)")
     (auto simp: min_def max_def nat_diff_distrib)

lemma sha256_supported: "''sha256'' \<in> set supported_algorithms"
  by (simp add: supported_algorithms_def)

lemma make_chunk_ok:
  assumes "algorithm \<in> set supported_algorithms"
  shows "make_chunk H algorithm fd fs cs i =
     Inr \<lparr> chunk_id = i, size = int (length (py_slice fd (i * cs) (min (i * cs + cs) fs))),
           data = py_slice fd (i * cs) (min (i * cs + cs) fs),
           checksum = H algorithm (py_slice fd (i * cs) (min (i * cs + cs) fs)),
           status = PENDING, stored_nodes = {} \<rparr>"
  using assms by (simp add: make_chunk_def compute_checksum_def Let_def)

lemma chunk_loop_ok:
  assumes "algorithm \<in> set supported_algorithms"
  shows "\<exists>cs'. chunk_loop H algorithm fd fs cs is acc = Inr (acc @ cs') \<and>
           map chunk_id cs' = is \<and>
           map data cs' = map (\<lambda>i. py_slice fd (i * cs) (min (i * cs + cs) fs)) is \<and>
           (\<forall>c \<in> set cs'. size c = int (length (data c)) \<and> checksum c = H algorithm (data c) \<and> status c = PENDING)"
proof (induction "is" arbitrary: acc)
  case Nil
  then show ?case by simp
next
  case (Cons i rest)
  let ?c = "\<lparr> chunk_id = i, size = int (length (py_slice fd (i * cs) (min (i * cs + cs) fs))),
           data = py_slice fd (i * cs) (min (i * cs + cs) fs),
           checksum = H algorithm (py_slice fd (i * cs) (min (i * cs + cs) fs)),
           status = PENDING, stored_nodes = {} \<rparr>"
  from Cons.IH[of "acc @ [?c]"] obtain cs' where
    h: "chunk_loop H algorithm fd fs cs rest (acc @ [?c]) = Inr ((acc @ [?c]) @ cs')"
       "map chunk_id cs' = rest"
       "map data cs' = map (\<lambda>i. py_slice fd (i * cs) (min (i * cs + cs) fs)) rest"
       "\<forall>c \<in> set cs'. size c = int (length (data c)) \<and> checksum c = H algorithm (data c) \<and> status c = PENDING"
    by blast
  show ?case
    apply (rule exI[of _ "?c # cs'"])
    using h by (simp add: make_chunk_ok[OF assms])
qed

lemma concat_take_chunks:
  "concat (map (\<lambda>k. take c (drop (k * c) xs)) [0..<n]) = take (n * c) xs"
proof (induction n)
  case 0
  then show ?case by simp
next
  case (Suc n)
  have "take (n * c + c) xs = take (n * c) xs @ take c (drop (n * c) xs)"
    by (rule take_add)
  moreover have "Suc n * c = n * c + c" by simp
  ultimately show ?case using Suc by (simp add: add.commute)
qed

lemma default_chunk_size:
  "calculate_chunk_size default_config fsz =
     (if fsz < 10 * 1024 * 1024 then 512 * 1024
      else if fsz < 100 * 1024 * 1024 then 2 * 1024 * 1024 else 10 * 1024 * 1024)"
  by (simp add: calculate_chunk_size_def default_config_def)

lemma ceil_div_nat:
  assumes c: "0 < c"
  shows "- ((- int a) div int c) = int ((a + c - 1) div c)"
proof -
  define q where "q = a div c"
  define r where "r = a mod c"
  have a: "a = c * q + r" by (simp add: q_def r_def)
  have r: "r < c" using c by (simp add: r_def)
  have rhs: "(a + c - 1) div c = (if r = 0 then q else q + 1)"
  proof (cases "r = 0")
    case True
    have "(a + c - 1) div c = q"
    proof (rule div_nat_eqI)
      show "c * q \<le> a + c - 1" using a c True by simp
      show "a + c - 1 < c * Suc q" using a c True by simp
    qed
    with True show ?thesis by simp
  next
    case False
    have "(a + c - 1) div c = Suc q"
    proof (rule div_nat_eqI)
      show "c * Suc q \<le> a + c - 1" using a c False by simp
      show "a + c - 1 < c * Suc (Suc q)" using a r c False by simp
    qed
    with False show ?thesis by simp
  qed
  have lhs: "(- int a) div int c = (if r = 0 then - int q else - int q - 1)"
    using c by (simp add: zdiv_zminus1_eq_if q_def r_def zdiv_int flip: of_nat_mod)
  show ?thesis by (subst lhs, subst rhs) simp
qed

lemma take_chunk_slice:
  fixes fd :: "'a list"
  assumes c: "0 < c" and k: "k * c < length fd"
  shows "py_slice fd (int k * int c) (min (int k * int c + int c) (int (length fd)))
           = take c (drop (k * c) fd)"
proof -
  have "py_slice fd (int k * int c) (min (int k * int c + int c) (int (length fd)))
      = take (nat (min (int k * int c + int c) (int (length fd))) - nat (int k * int c))
          (drop (nat (int k * int c)) fd)"
    using c k by (intro py_slice_nonneg) (simp_all add: min_def flip: of_nat_mult)
  also have "nat (int k * int c) = k * c" by (simp flip: of_nat_mult)
  also have "nat (min (int k * int c + int c) (int (length fd))) = min (k * c + c) (length fd)"
    by (simp add: min_def flip: of_nat_mult of_nat_add)
  also have "take (min (k * c + c) (length fd) - k * c) (drop (k * c) fd) = take c (drop (k * c) fd)"
    by (simp add: min_def)
  finally show ?thesis .
qed

lemma generate_chunks_general:
  fixes fd :: bytes
  assumes cs: "calculate_chunk_size cfg (int (length fd)) = int c" and c: "0 < c"
    and alg: "checksum_algorithm (storage cfg) \<in> set supported_algorithms"
  shows "\<exists>chunks. generate_chunks cfg H fd fid (int (length fd)) = Inr chunks \<and>
           length chunks = (length fd + c - 1) div c \<and>
           map chunk_id chunks = map int [0..<length chunks] \<and>
           map data chunks = map (\<lambda>k. take c (drop (k * c) fd)) [0..<length chunks] \<and>
           (\<forall>ch \<in> set chunks. size ch = int (length (data ch)) \<and>
               checksum ch = H (checksum_algorithm (storage cfg)) (data ch) \<and> status ch = PENDING)"
proof -
  let ?n = "(length fd + c - 1) div c"
  let ?alg = "checksum_algorithm (storage cfg)"
  from chunk_loop_ok[OF alg, of H fd "int (length fd)" "int c" "py_range (int ?n)" "[]"]
  obtain chunks where
    run: "chunk_loop H ?alg fd (int (length fd)) (int c) (py_range (int ?n)) [] = Inr chunks"
    and ids: "map chunk_id chunks = py_range (int ?n)"
    and dat: "map data chunks = map (\<lambda>i. py_slice fd (i * int c) (min (i * int c + int c) (int (length fd)))) (py_range (int ?n))"
    and rest: "\<forall>ch \<in> set chunks. size ch = int (length (data ch)) \<and> checksum ch = H ?alg (data ch) \<and> status ch = PENDING"
    by auto
  have len: "length chunks = ?n"
    using ids by (metis length_map py_range_def nat_int length_upt diff_zero)
  have gen: "generate_chunks cfg H fd fid (int (length fd)) = Inr chunks"
    using c run by (simp add: generate_chunks_def cs ceil_div_def ceil_div_nat[OF c])
  have inrange: "k * c < length fd" if "k < ?n" for k
  proof -
    have "k \<le> ?n - 1" using that by arith
    then have "k * c \<le> (?n - 1) * c" by (rule mult_le_mono1)
    also have "(?n - 1) * c < length fd"
    proof -
      have le: "?n * c \<le> length fd + c - 1" by (rule div_times_less_eq_dividend)
      from that obtain m where m: "?n = Suc m" by (cases ?n) auto
      from le have "m * c + c \<le> length fd + c - 1" unfolding m by (simp add: add.commute)
      then have "m * c < length fd" using c by arith
      then show ?thesis unfolding m by simp
    qed
    finally show ?thesis .
  qed
  have dat': "map data chunks = map (\<lambda>k. take c (drop (k * c) fd)) [0..<?n]"
    unfolding dat py_range_def map_map comp_def
    by (rule map_cong) (simp_all add: take_chunk_slice[OF c inrange])
  show ?thesis
    using gen len ids dat' rest by (simp add: py_range_def)
qed


lemma default_chunk_size_pos:
  "\<exists>c. calculate_chunk_size default_config fsz = int c \<and> 0 < c"
proof -
  have "0 < calculate_chunk_size default_config fsz"
    by (simp add: default_chunk_size)
  then show ?thesis
    by (intro exI[of _ "nat (calculate_chunk_size default_config fsz)"]) simp
qed

text \<open>
  Claim C4.  For every byte buffer, with the chunk size chosen from the buffer's size by the
  default configuration (512 KiB below 10 MiB, 2 MiB from 10 MiB up to but below 100 MiB,
  10 MiB otherwise), the chunker returns exactly \<open>\<lceil>total_size / chunk_size\<rceil>\<close> chunks, numbered
  \<open>0..n-1\<close>, whose data concatenate to the buffer; every chunk but the last holds exactly
  \<open>chunk_size\<close> bytes and the last holds \<open>total_size mod chunk_size\<close> bytes, or a full
  \<open>chunk_size\<close> when the size is a positive multiple of it.
\<close>

theorem generate_chunks_correct:
  fixes fd :: bytes
  shows "calculate_chunk_size default_config (int (length fd)) =
           (if int (length fd) < 10 * 1024 * 1024 then 512 * 1024
            else if int (length fd) < 100 * 1024 * 1024 then 2 * 1024 * 1024
            else 10 * 1024 * 1024) \<and>
         (\<exists>chunks. generate_chunks default_config H fd fid (int (length fd)) = Inr chunks \<and>
            int (length chunks) =
              \<lceil>real (length fd) / real_of_int (calculate_chunk_size default_config (int (length fd)))\<rceil> \<and>
            map chunk_id chunks = map int [0..<length chunks] \<and>
            concat (map data chunks) = fd \<and>
            (\<forall>i<length chunks.
               size (chunks ! i) = int (length (data (chunks ! i))) \<and>
               int (length (data (chunks ! i))) =
                 (if Suc i < length chunks
                  then calculate_chunk_size default_config (int (length fd))
                  else if int (length fd) mod calculate_chunk_size default_config (int (length fd)) = 0
                  then calculate_chunk_size default_config (int (length fd))
                  else int (length fd) mod calculate_chunk_size default_config (int (length fd)))))"
proof -
  obtain c where cs: "calculate_chunk_size default_config (int (length fd)) = int c" and c: "0 < c"
    using default_chunk_size_pos by blast
  have alg: "checksum_algorithm (storage default_config) \<in> set supported_algorithms"
    by (simp add: default_config_def supported_algorithms_def)
  let ?n = "(length fd + c - 1) div c"
  from generate_chunks_general[OF cs c alg, of H fid] obtain chunks where
    gen: "generate_chunks default_config H fd fid (int (length fd)) = Inr chunks"
    and len: "length chunks = ?n"
    and ids: "map chunk_id chunks = map int [0..<length chunks]"
    and dat: "map data chunks = map (\<lambda>k. take c (drop (k * c) fd)) [0..<length chunks]"
    and rest: "\<forall>ch \<in> set chunks. size ch = int (length (data ch)) \<and>
               checksum ch = H (checksum_algorithm (storage default_config)) (data ch) \<and> status ch = PENDING"
    by blast
  have ceil: "int (length chunks) = \<lceil>real (length fd) / real_of_int (int c)\<rceil>"
  proof -
    have "\<lceil>real_of_int (int (length fd)) / real_of_int (int c)\<rceil> = - ((- int (length fd)) div int c)"
      by (rule ceiling_divide_eq_div)
    then show ?thesis by (simp add: len ceil_div_nat[OF c])
  qed
  have cover: "length fd \<le> ?n * c"
  proof -
    have "length fd + c - 1 < ?n * c + c"
      using c by (metis add.commute dividend_less_div_times mult.commute)
    then show ?thesis using c by arith
  qed
  have cat: "concat (map data chunks) = fd"
    unfolding dat len concat_take_chunks using cover by simp
  have sizes: "int (length (data (chunks ! i))) =
                 (if Suc i < length chunks then int c
                  else if int (length fd) mod int c = 0 then int c
                  else int (length fd) mod int c)" if i: "i < length chunks" for i
  proof -
    have "data (chunks ! i) = take c (drop (i * c) fd)"
      using i dat by (metis (no_types, lifting) add_0 length_map nth_map nth_upt length_upt diff_zero)
    then have l: "length (data (chunks ! i)) = min c (length fd - i * c)" by simp
    show ?thesis
    proof (cases "Suc i < length chunks")
      case True
      have "Suc i * c \<le> (?n - 1) * c" using True len by (intro mult_le_mono1) arith
      moreover have "(?n - 1) * c < length fd"
      proof -
        have le: "?n * c \<le> length fd + c - 1" by (rule div_times_less_eq_dividend)
        from True len obtain m where m: "?n = Suc m" by (cases ?n) auto
        from le have "m * c + c \<le> length fd + c - 1" unfolding m by (simp add: add.commute)
        then have "m * c < length fd" using c by arith
        then show ?thesis unfolding m by simp
      qed
      ultimately have "i * c + c < length fd" by simp
      with l True show ?thesis by simp
    next
      case False
      with i len have n: "?n = Suc i" by arith
      define q where "q = length fd div c"
      define r where "r = length fd mod c"
      have a: "length fd = c * q + r" by (simp add: q_def r_def)
      have r: "r < c" using c by (simp add: r_def)
      have nq: "?n = (if r = 0 then q else Suc q)"
      proof (cases "r = 0")
        case True
        have "?n = q"
        proof (rule div_nat_eqI)
          show "c * q \<le> length fd + c - 1" using a c True by simp
          show "length fd + c - 1 < c * Suc q" using a c True by simp
        qed
        with True show ?thesis by simp
      next
        case False
        have "?n = Suc q"
        proof (rule div_nat_eqI)
          show "c * Suc q \<le> length fd + c - 1" using a c False by simp
          show "length fd + c - 1 < c * Suc (Suc q)" using a r c False by simp
        qed
        with False show ?thesis by simp
      qed
      have modint: "int (length fd) mod int c = int r"
        by (simp add: r_def flip: of_nat_mod)
      show ?thesis
      proof (cases "r = 0")
        case True
        with nq n have "q = Suc i" by simp
        then have "length fd - i * c = c" using a True by simp
        with l False True modint show ?thesis by simp
      next
        case False
        with nq n have "q = i" by simp
        then have "length fd - i * c = r" using a by (simp add: mult.commute)
        with l \<open>\<not> Suc i < length chunks\<close> False modint r show ?thesis by simp
      qed
    qed
  qed
  have szs: "size (chunks ! i) = int (length (data (chunks ! i)))" if "i < length chunks" for i
    using rest that by simp
  show ?thesis
    apply (rule conjI)
     apply (rule default_chunk_size)
    apply (rule exI[of _ chunks])
    using gen ceil ids cat sizes szs unfolding cs by simp
qed


theorem generate_chunks_correct_witness:
  "\<forall>H. \<exists>chunks. generate_chunks default_config H (replicate 1048577 (0::byte)) ''f'' 1048577 = Inr chunks \<and>
     length chunks = 3 \<and> map chunk_id chunks = [0, 1, 2] \<and>
     size (chunks ! 0) = 524288 \<and> size (chunks ! 1) = 524288 \<and> size (chunks ! 2) = 1 \<and>
     concat (map data chunks) = replicate 1048577 0"
proof
  fix H :: hashlib
  let ?fd = "replicate 1048577 (0::byte)"
  have cs: "calculate_chunk_size default_config 1048577 = 524288"
    by (simp add: calculate_chunk_size_def default_config_def)
  from generate_chunks_correct[of ?fd H "''f''"] obtain chunks where
    gen: "generate_chunks default_config H ?fd ''f'' 1048577 = Inr chunks"
    and len: "int (length chunks) = \<lceil>real 1048577 / real_of_int 524288\<rceil>"
    and ids: "map chunk_id chunks = map int [0..<length chunks]"
    and cat: "concat (map data chunks) = ?fd"
    and szs: "\<forall>i<length chunks.
               size (chunks ! i) = int (length (data (chunks ! i))) \<and>
               int (length (data (chunks ! i))) =
                 (if Suc i < length chunks then 524288
                  else if (1048577::int) mod 524288 = 0 then 524288 else 1048577 mod 524288)"
    by (auto simp: cs)
  have l3: "length chunks = 3" using len by simp
  have "[0..<3] = [0, 1, 2]" by (simp add: upt_rec)
  with ids l3 have ids3: "map chunk_id chunks = [0, 1, 2]" by simp
  from szs l3 have "size (chunks ! 0) = 524288" "size (chunks ! 1) = 524288" "size (chunks ! 2) = 1"
    by simp_all
  with gen l3 ids3 cat
  show "\<exists>chunks. generate_chunks default_config H ?fd ''f'' 1048577 = Inr chunks \<and>
     length chunks = 3 \<and> map chunk_id chunks = [0, 1, 2] \<and>
     size (chunks ! 0) = 524288 \<and> size (chunks ! 1) = 524288 \<and> size (chunks ! 2) = 1 \<and>
     concat (map data chunks) = ?fd"
    by (intro exI[of _ chunks]) simp
qed

section \<open>Verification of the replica placement\<close>

lemma candidates_of_props:
  "set (candidates_of a e c) \<subseteq> set a"
  "n \<in> set (candidates_of a e c) \<Longrightarrow> node_id n \<notin> e \<and> total_storage n - used_storage n \<ge> c"
  "distinct (map node_id a) \<Longrightarrow> distinct (map node_id (candidates_of a e c))"
  by (auto simp: candidates_of_def distinct_map_filter)

lemma sort_by_free_desc_props:
  "set (sort_by_free_desc xs) = set xs"
  "length (sort_by_free_desc xs) = length xs"
  "mset (sort_by_free_desc xs) = mset xs"
  by (simp_all add: sort_by_free_desc_def)

lemma sort_by_free_desc_distinct:
  "distinct (map node_id xs) \<Longrightarrow> distinct (map node_id (sort_by_free_desc xs))"
proof -
  assume d: "distinct (map node_id xs)"
  have "mset (map node_id (sort_by_free_desc xs)) = mset (map node_id xs)"
    by (simp add: sort_by_free_desc_def)
  then show ?thesis using d by (metis mset_eq_imp_distinct_iff)
qed

lemma sort_by_free_desc_sorted:
  "sorted_wrt (\<lambda>a b. free_space a \<ge> free_space b) (sort_by_free_desc xs)"
proof -
  have "sorted (map (\<lambda>n. - (total_storage n - used_storage n)) (sort_by_free_desc xs))"
    unfolding sort_by_free_desc_def by (rule sorted_sort_key)
  then show ?thesis
    by (simp add: sorted_map free_space_def) (erule sorted_wrt_mono_rel[rotated], simp)
qed

lemma py_slice_prefix: "py_slice xs 0 b = take (nat (py_clamp_index (int (length xs)) b)) xs"
  by (simp add: py_slice_def py_clamp_index_def Let_def)

lemma spread_loop_eq:
  "spread_loop cands cnt is sel =
     sel @ map (\<lambda>i. cands ! i) (take (nat (cnt - int (length sel))) is)"
proof (induction "is" arbitrary: sel)
  case Nil
  then show ?case by simp
next
  case (Cons i rest)
  show ?case
  proof (cases "int (length sel) \<ge> cnt")
    case True
    then show ?thesis by simp
  next
    case False
    then obtain m where m: "nat (cnt - int (length sel)) = Suc m"
      by (cases "nat (cnt - int (length sel))") auto
    then have m': "nat (cnt - int (length (sel @ [cands ! i]))) = m" by simp
    show ?thesis using False Cons.IH[of "sel @ [cands ! i]"] unfolding m' m by simp
  qed
qed

lemma fill_loop_done:
  "\<not> (int (length sel) < cnt \<and> length sel < length cands) \<Longrightarrow> fill_loop cands cnt sel = Some sel"
  by (subst fill_loop.simps) auto

lemma take_range_step:
  assumes "0 < step" "c * step \<le> n"
  shows "take c (py_range_step n step) = map (\<lambda>j. j * step) [0..<c]"
proof -
  have "c \<le> (n + step - 1) div step"
  proof -
    have "c = (c * step) div step" using assms by simp
    also have "\<dots> \<le> (n + step - 1) div step" using assms by (intro div_le_mono) simp
    finally show ?thesis .
  qed
  then show ?thesis
    by (simp add: py_range_step_def take_map min_def)
qed


lemma nth_picks:
  assumes d: "distinct (map f xs)" and p: "distinct picks" and r: "\<forall>j\<in>set picks. j < length xs"
  shows "distinct (map f (map (\<lambda>j. xs ! j) picks))" and "set (map (\<lambda>j. xs ! j) picks) \<subseteq> set xs"
proof -
  have "inj_on (\<lambda>j. map f xs ! j) (set picks)"
  proof (rule inj_onI)
    fix i j assume "i \<in> set picks" "j \<in> set picks" "map f xs ! i = map f xs ! j"
    moreover from this r have "i < length (map f xs)" "j < length (map f xs)" by simp_all
    ultimately show "i = j" using d nth_eq_iff_index_eq by blast
  qed
  then have "distinct (map (\<lambda>j. map f xs ! j) picks)" using p by (simp add: distinct_map)
  moreover have "map (\<lambda>j. map f xs ! j) picks = map f (map (\<lambda>j. xs ! j) picks)"
    using r by simp
  ultimately show "distinct (map f (map (\<lambda>j. xs ! j) picks))" by simp
  show "set (map (\<lambda>j. xs ! j) picks) \<subseteq> set xs" using r by auto
qed

lemma diverse_step:
  assumes "0 < cnt" "cnt \<le> int n"
  shows "nat (max 1 (int n div cnt)) = max 1 (n div nat cnt)"
    and "0 < max 1 (n div nat cnt)"
    and "nat cnt * max 1 (n div nat cnt) \<le> n"
proof -
  have c: "0 < nat cnt" "nat cnt \<le> n" using assms by simp_all
  have "int n div cnt = int (n div nat cnt)" using assms by (simp add: zdiv_int)
  then show "nat (max 1 (int n div cnt)) = max 1 (n div nat cnt)" by (simp add: max_def)
  show "0 < max 1 (n div nat cnt)" by simp
  have "1 \<le> n div nat cnt" using c by (simp add: Suc_leI div_greater_zero_iff)
  then have "max 1 (n div nat cnt) = n div nat cnt" by simp
  then show "nat cnt * max 1 (n div nat cnt) \<le> n" by simp
qed

lemma diverse_spread:
  assumes "0 < cnt" "cnt \<le> int (length xs)"
  shows "spread_loop xs cnt (py_range_step (length xs) (nat (max 1 (int (length xs) div cnt)))) []
           = map (\<lambda>j. xs ! (j * max 1 (length xs div nat cnt))) [0..<nat cnt]"
proof -
  let ?k = "max 1 (length xs div nat cnt)"
  note st = diverse_step[OF assms]
  have "take (nat cnt) (py_range_step (length xs) ?k) = map (\<lambda>j. j * ?k) [0..<nat cnt]"
    by (rule take_range_step[OF st(2) st(3)])
  then show ?thesis
    by (simp add: spread_loop_eq st(1) comp_def)
qed

lemma diverse_indices:
  assumes "0 < cnt" "cnt \<le> int n"
  shows "distinct (map (\<lambda>j. j * max 1 (n div nat cnt)) [0..<nat cnt])"
    and "\<forall>i \<in> set (map (\<lambda>j. j * max 1 (n div nat cnt)) [0..<nat cnt]). i < n"
proof -
  let ?k = "max 1 (n div nat cnt)"
  note st = diverse_step[OF assms]
  show "distinct (map (\<lambda>j. j * ?k) [0..<nat cnt])"
    using st(2) by (simp add: distinct_map inj_on_def)
  show "\<forall>i \<in> set (map (\<lambda>j. j * ?k) [0..<nat cnt]). i < n"
  proof
    fix i assume "i \<in> set (map (\<lambda>j. j * ?k) [0..<nat cnt])"
    then obtain j where j: "j < nat cnt" "i = j * ?k" by auto
    then have "Suc j * ?k \<le> nat cnt * ?k" by (intro mult_le_mono1) simp
    with st(3) have "j * ?k + ?k \<le> n" by simp
    with st(2) j show "i < n" by linarith
  qed
qed


lemma diverse_run:
  assumes strat: "placement_strategy (replication cfg) = ''diverse''"
    and dist: "distinct (map node_id available)"
    and pos: "0 < cnt"
    and enough: "cnt \<le> int (length (candidates_of available exclude csz))"
  shows "let sorted_cands = sort_by_free_desc (candidates_of available exclude csz);
             k = max 1 (length sorted_cands div nat cnt);
             selected = map (\<lambda>j. sorted_cands ! (j * k)) [0..<nat cnt]
         in select_replica_nodes cfg picks available cnt exclude csz = Some (Inr selected) \<and>
            int (length selected) = cnt \<and>
            distinct (map node_id selected) \<and>
            set selected \<subseteq> set (candidates_of available exclude csz) \<and>
            mset sorted_cands = mset (candidates_of available exclude csz) \<and>
            sorted_wrt (\<lambda>a b. free_space a \<ge> free_space b) sorted_cands \<and>
            fill_loop sorted_cands cnt selected = Some selected"
proof -
  let ?cands = "candidates_of available exclude csz"
  let ?xs = "sort_by_free_desc ?cands"
  let ?k = "max 1 (length ?xs div nat cnt)"
  let ?sel = "map (\<lambda>j. ?xs ! (j * ?k)) [0..<nat cnt]"
  have len: "length ?xs = length ?cands" by (simp add: sort_by_free_desc_props)
  have enough': "cnt \<le> int (length ?xs)" using enough len by simp
  have dxs: "distinct (map node_id ?xs)"
    by (intro sort_by_free_desc_distinct candidates_of_props(3) dist)
  have spread: "spread_loop ?xs cnt (py_range_step (length ?xs) (nat (max 1 (int (length ?xs) div cnt)))) [] = ?sel"
    by (rule diverse_spread[OF pos enough'])
  have lsel: "int (length ?sel) = cnt" using pos by simp
  have fill: "fill_loop ?xs cnt ?sel = Some ?sel"
    by (rule fill_loop_done) (use lsel in linarith)
  have sel_eq: "?sel = map (\<lambda>i. ?xs ! i) (map (\<lambda>j. j * ?k) [0..<nat cnt])"
    by (simp add: comp_def)
  note idx = diverse_indices[OF pos enough']
  have dsel: "distinct (map node_id ?sel)"
    unfolding sel_eq by (rule nth_picks(1)[OF dxs idx(1) idx(2)])
  have ssel: "set ?sel \<subseteq> set ?cands"
    using nth_picks(2)[OF dxs idx(1) idx(2)] unfolding sel_eq[symmetric]
    by (simp add: sort_by_free_desc_props)
  have run: "select_replica_nodes cfg picks available cnt exclude csz = Some (Inr ?sel)"
    using pos enough strat spread fill
    by (simp add: select_replica_nodes_def Let_def del: map_map)
  show ?thesis
    unfolding Let_def
    using run lsel dsel ssel sort_by_free_desc_props(3)[of ?cands] sort_by_free_desc_sorted[of ?cands] fill
    by (intro conjI)
qed



text \<open>
  Claim C8.  With the \<open>diverse\<close> strategy and at least \<open>count\<close> (a positive number of)
  candidates surviving the filter, the selection is exactly \<open>count\<close> distinct nodes, those at
  the positions \<open>0, k, 2k, \<dots>\<close> with \<open>k = max(1, len div count)\<close> of the candidates sorted by
  free space in descending order; the filling loop finds the selection complete and adds
  nothing.  The witness below is the pool of five nodes with 90, 80, 70, 60 and 50 GiB
  free and \<open>count = 3\<close>: the three nodes with the most free space, in descending order.
\<close>

theorem diverse_selection:
  assumes "placement_strategy (replication cfg) = ''diverse''"
    and "distinct (map node_id available)"
    and "0 < cnt"
    and "cnt \<le> int (length (candidates_of available exclude csz))"
  shows "let sorted_cands = sort_by_free_desc (candidates_of available exclude csz);
             k = max 1 (length sorted_cands div nat cnt);
             selected = map (\<lambda>j. sorted_cands ! (j * k)) [0..<nat cnt]
         in select_replica_nodes cfg picks available cnt exclude csz = Some (Inr selected) \<and>
            int (length selected) = cnt \<and>
            distinct (map node_id selected) \<and>
            set selected \<subseteq> set (candidates_of available exclude csz) \<and>
            mset sorted_cands = mset (candidates_of available exclude csz) \<and>
            sorted_wrt (\<lambda>a b. free_space a \<ge> free_space b) sorted_cands \<and>
            fill_loop sorted_cands cnt selected = Some selected"
  using assms by (rule diverse_run)

lemma pool5_candidates: "candidates_of pool5 {} 1024 = pool5"
  by (simp add: candidates_of_def pool5_def pool_node_def new_node_def)

lemma pool5_sorted:
  "sort_by_free_desc pool5 =
     [pool_node ''node-1'' 10, pool_node ''node-3'' 20, pool_node ''node-0'' 30,
      pool_node ''node-4'' 40, pool_node ''node-2'' 50]"
  by (simp add: sort_by_free_desc_def pool5_def pool_node_def new_node_def)

lemma pool5_distinct: "distinct (map node_id pool5)"
  by (simp add: pool5_def pool_node_def new_node_def)

theorem diverse_selection_witness:
  "select_replica_nodes default_config [] pool5 3 {} 1024 =
     Some (Inr [pool_node ''node-1'' 10, pool_node ''node-3'' 20, pool_node ''node-0'' 30]) \<and>
   map free_space [pool_node ''node-1'' 10, pool_node ''node-3'' 20, pool_node ''node-0'' 30] =
     [90 * 1024 * 1024 * 1024, 80 * 1024 * 1024 * 1024, 70 * 1024 * 1024 * 1024] \<and>
   map free_space pool5 =
     [70 * 1024 * 1024 * 1024, 90 * 1024 * 1024 * 1024, 50 * 1024 * 1024 * 1024,
      80 * 1024 * 1024 * 1024, 60 * 1024 * 1024 * 1024]"
proof -
  have strat: "placement_strategy (replication default_config) = ''diverse''"
    by (simp add: default_config_def)
  have enough: "(3::int) \<le> int (length (candidates_of pool5 {} 1024))"
    by (simp add: pool5_candidates) (simp add: pool5_def)
  have idx: "[0..<nat 3] = [0, 1, 2]" by (simp add: upt_rec)
  have k: "max 1 (length pool5 div nat 3) = 1" by (simp add: pool5_def)
  from diverse_selection[OF strat pool5_distinct _ enough, of "[]"]
  have "select_replica_nodes default_config [] pool5 3 {} 1024 =
     Some (Inr [pool_node ''node-1'' 10, pool_node ''node-3'' 20, pool_node ''node-0'' 30])"
    unfolding Let_def pool5_candidates sort_by_free_desc_props(2) k idx
    by (simp add: pool5_sorted)
  moreover have "map free_space [pool_node ''node-1'' 10, pool_node ''node-3'' 20, pool_node ''node-0'' 30] =
     [90 * 1024 * 1024 * 1024, 80 * 1024 * 1024 * 1024, 70 * 1024 * 1024 * 1024]"
    by (simp add: free_space_def pool_node_def new_node_def)
  moreover have "map free_space pool5 =
     [70 * 1024 * 1024 * 1024, 90 * 1024 * 1024 * 1024, 50 * 1024 * 1024 * 1024,
      80 * 1024 * 1024 * 1024, 60 * 1024 * 1024 * 1024]"
    by (simp add: free_space_def pool5_def pool_node_def new_node_def)
  ultimately show ?thesis by blast
qed


lemma prefix_props:
  assumes "distinct (map f xs)"
  shows "distinct (map f (py_slice xs 0 b))" and "set (py_slice xs 0 b) \<subseteq> set xs"
proof -
  show "distinct (map f (py_slice xs 0 b))"
    unfolding py_slice_prefix take_map[symmetric] using assms by (rule distinct_take)
  show "set (py_slice xs 0 b) \<subseteq> set xs"
    unfolding py_slice_prefix by (rule set_take_subset)
qed

text \<open>
  Claim C7.  For every call of the placement policy, whatever the strategy, the call returns,
  and a returned selection holds no node of the exclude set, no node twice, only nodes
  of the pool with \<open>total_storage - used_storage \<ge> chunk_size\<close>; when fewer than \<open>count\<close>
  candidates survive the filter exactly the surviving candidates are returned; and a
  positive \<open>count\<close> never raises.  The pool's node ids are distinct, and the positions
  drawn by \<open>random.sample\<close> obey the library's contract.
\<close>

theorem select_replica_nodes_sound:
  assumes dist: "distinct (map node_id available)"
    and rnd: "placement_strategy (replication cfg) \<notin> {''least_loaded'', ''diverse''} \<Longrightarrow>
              0 \<le> cnt \<Longrightarrow> cnt \<le> int (length (candidates_of available exclude csz)) \<Longrightarrow>
              sample_contract picks (length (candidates_of available exclude csz)) cnt"
  shows "\<exists>r. select_replica_nodes cfg picks available cnt exclude csz = Some r \<and>
           (\<forall>sel. r = Inr sel \<longrightarrow>
              (\<forall>n \<in> set sel. node_id n \<notin> exclude \<and> total_storage n - used_storage n \<ge> csz \<and>
                              n \<in> set available) \<and>
              distinct (map node_id sel)) \<and>
           (int (length (candidates_of available exclude csz)) < cnt \<longrightarrow>
              r = Inr (candidates_of available exclude csz)) \<and>
           (0 < cnt \<longrightarrow> (\<exists>sel. r = Inr sel))"
proof -
  let ?cands = "candidates_of available exclude csz"
  let ?xs = "sort_by_free_desc ?cands"
  let ?strategy = "placement_strategy (replication cfg)"
  let ?good = "\<lambda>sel. (\<forall>n \<in> set sel. node_id n \<notin> exclude \<and> total_storage n - used_storage n \<ge> csz \<and>
                              n \<in> set available) \<and> distinct (map node_id sel)"
  have dc: "distinct (map node_id ?cands)" by (rule candidates_of_props(3)[OF dist])
  have dxs: "distinct (map node_id ?xs)" by (rule sort_by_free_desc_distinct[OF dc])
  have sub: "?good sel" if "set sel \<subseteq> set ?cands" "distinct (map node_id sel)" for sel
    using that candidates_of_props(1)[of available exclude csz]
      candidates_of_props(2)[of _ available exclude csz] by blast
  have sub': "?good sel" if "set sel \<subseteq> set ?xs" "distinct (map node_id sel)" for sel
    using that sub by (simp add: sort_by_free_desc_props)
  show ?thesis
  proof (cases "int (length ?cands) < cnt")
    case True
    then have "select_replica_nodes cfg picks available cnt exclude csz = Some (Inr ?cands)"
      by (simp add: select_replica_nodes_def)
    moreover have "?good ?cands" using sub[of ?cands] dc by simp
    ultimately show ?thesis by simp
  next
    case enough: False
    consider (ll) "?strategy = ''least_loaded''" | (dv) "?strategy = ''diverse''"
      | (rn) "?strategy \<notin> {''least_loaded'', ''diverse''}" by blast
    then show ?thesis
    proof cases
      case ll
      then have "select_replica_nodes cfg picks available cnt exclude csz
                   = Some (Inr (py_slice ?xs 0 cnt))"
        using enough by (simp add: select_replica_nodes_def)
      moreover have "?good (py_slice ?xs 0 cnt)"
        by (rule sub'[OF prefix_props(2)[OF dxs] prefix_props(1)[OF dxs]])
      ultimately show ?thesis using enough by simp
    next
      case rn
      then have run: "select_replica_nodes cfg picks available cnt exclude csz
                   = Some (py_sample picks ?cands cnt)"
        using enough by (auto simp: select_replica_nodes_def Let_def)
      show ?thesis
      proof (cases "cnt < 0")
        case True
        then show ?thesis using run enough by (simp add: py_sample_def)
      next
        case False
        with enough have c: "0 \<le> cnt" "cnt \<le> int (length ?cands)" by simp_all
        from rnd[OF rn c] have pk: "distinct picks" "\<forall>j\<in>set picks. j < length ?cands"
          by (simp_all add: sample_contract_def list_all_iff)
        have r: "py_sample picks ?cands cnt = Inr (map (\<lambda>j. ?cands ! j) picks)"
          using c by (simp add: py_sample_def)
        have "?good (map (\<lambda>j. ?cands ! j) picks)"
          by (rule sub[OF nth_picks(2)[OF dc pk] nth_picks(1)[OF dc pk]])
        then show ?thesis using run r enough by simp
      qed
    next
      case dv
      consider (zero) "cnt = 0" | (neg) "cnt < 0" | (pos) "0 < cnt" by linarith
      then show ?thesis
      proof cases
        case zero
        then show ?thesis using dv enough by (simp add: select_replica_nodes_def)
      next
        case neg
        have "spread_loop ?xs cnt (py_range_step (length ?xs) (nat (max 1 (int (length ?xs) div cnt)))) [] = []"
          using neg by (simp add: spread_loop_eq)
        moreover have "fill_loop ?xs cnt [] = Some []"
          using neg by (intro fill_loop_done) simp
        ultimately have "select_replica_nodes cfg picks available cnt exclude csz = Some (Inr [])"
          using dv enough neg by (simp add: select_replica_nodes_def Let_def)
        then show ?thesis using neg enough by simp
      next
        case pos
        from enough have e: "cnt \<le> int (length ?cands)" by simp
        let ?sel = "map (\<lambda>j. ?xs ! (j * max 1 (length ?xs div nat cnt))) [0..<nat cnt]"
        from diverse_run[OF dv dist pos e, of picks]
        have run: "select_replica_nodes cfg picks available cnt exclude csz = Some (Inr ?sel)"
          and d: "distinct (map node_id ?sel)" and s: "set ?sel \<subseteq> set ?cands"
          unfolding Let_def by blast+
        have "?good ?sel" by (rule sub[OF s d])
        then show ?thesis using run enough by simp
      qed
    qed
  qed
qed


theorem select_replica_nodes_sound_witness:
  "select_replica_nodes random_config [2, 0] pool5 2 {''node-1''} 1024 =
     Some (Inr [pool_node ''node-3'' 20, pool_node ''node-0'' 30]) \<and>
   distinct (map node_id [pool_node ''node-3'' 20, pool_node ''node-0'' 30]) \<and>
   ''node-1'' \<notin> set (map node_id [pool_node ''node-3'' 20, pool_node ''node-0'' 30]) \<and>
   list_all (\<lambda>n. total_storage n - used_storage n \<ge> 1024)
     [pool_node ''node-3'' 20, pool_node ''node-0'' 30] \<and>
   select_replica_nodes random_config [] pool5 9 {''node-1''} 1024 =
     Some (Inr (candidates_of pool5 {''node-1''} 1024))"
proof -
  have cands: "candidates_of pool5 {''node-1''} 1024 =
      [pool_node ''node-0'' 30, pool_node ''node-2'' 50, pool_node ''node-3'' 20, pool_node ''node-4'' 40]"
    by (simp add: candidates_of_def pool5_def pool_node_def new_node_def)
  have strat: "placement_strategy (replication random_config) = ''random''"
    by (simp add: random_config_def)
  have run: "select_replica_nodes random_config [2, 0] pool5 2 {''node-1''} 1024 =
     Some (Inr [pool_node ''node-3'' 20, pool_node ''node-0'' 30])"
    by (simp add: select_replica_nodes_def cands strat py_sample_def)
  have contract: "sample_contract [2, 0] (length (candidates_of pool5 {''node-1''} 1024)) 2"
    by (simp add: cands sample_contract_def)
  from select_replica_nodes_sound[OF pool5_distinct contract, of random_config]
  obtain r where r: "select_replica_nodes random_config [2, 0] pool5 2 {''node-1''} 1024 = Some r"
    and good: "\<forall>sel. r = Inr sel \<longrightarrow>
              (\<forall>n \<in> set sel. node_id n \<notin> {''node-1''} \<and> total_storage n - used_storage n \<ge> 1024 \<and>
                              n \<in> set pool5) \<and>
              distinct (map node_id sel)"
    by blast
  from r run have "r = Inr [pool_node ''node-3'' 20, pool_node ''node-0'' 30]" by simp
  with good have g: "(\<forall>n \<in> set [pool_node ''node-3'' 20, pool_node ''node-0'' 30].
        node_id n \<notin> {''node-1''} \<and> total_storage n - used_storage n \<ge> 1024 \<and> n \<in> set pool5) \<and>
        distinct (map node_id [pool_node ''node-3'' 20, pool_node ''node-0'' 30])"
    by blast
  have few: "int (length (candidates_of pool5 {''node-1''} 1024)) < 9" by (simp add: cands)
  have c9: "sample_contract [] (length (candidates_of pool5 {''node-1''} 1024)) 9"
    if "9 \<le> int (length (candidates_of pool5 {''node-1''} 1024))"
    using that few by simp
  from select_replica_nodes_sound[OF pool5_distinct c9, of random_config]
  obtain r' where "select_replica_nodes random_config [] pool5 9 {''node-1''} 1024 = Some r'"
    and "int (length (candidates_of pool5 {''node-1''} 1024)) < 9 \<longrightarrow>
              r' = Inr (candidates_of pool5 {''node-1''} 1024)"
    by blast
  with few have run9: "select_replica_nodes random_config [] pool5 9 {''node-1''} 1024 =
     Some (Inr (candidates_of pool5 {''node-1''} 1024))" by simp
  from g have "distinct (map node_id [pool_node ''node-3'' 20, pool_node ''node-0'' 30])"
    and "''node-1'' \<notin> set (map node_id [pool_node ''node-3'' 20, pool_node ''node-0'' 30])"
    and "list_all (\<lambda>n. total_storage n - used_storage n \<ge> 1024)
     [pool_node ''node-3'' 20, pool_node ''node-0'' 30]"
    by (auto simp: list_all_iff)
  with run run9 show ?thesis by blast
qed

section \<open>Verification of the heartbeat monitor\<close>

lemma check_node_flags:
  "on_node_failure (check_node m now to e) = on_node_failure m"
  "on_node_recovery (check_node m now to e) = on_node_recovery m"
  "last_heartbeat (check_node m now to e) = last_heartbeat m"
  by (simp_all add: check_node_def mark_node_failed_def mark_node_recovered_def Let_def)

lemma check_node_failed:
  "failed_nodes (check_node m now to e) =
     (if now - snd e > to then insert (fst e) (failed_nodes m) else failed_nodes m - {fst e})"
  by (auto simp: check_node_def mark_node_failed_def mark_node_recovered_def Let_def)

lemma check_node_healthy:
  "healthy_nodes (check_node m now to e) =
     (if now - snd e > to
      then (if fst e \<in> failed_nodes m then healthy_nodes m else healthy_nodes m - {fst e})
      else insert (fst e) (healthy_nodes m))"
  by (auto simp: check_node_def mark_node_failed_def mark_node_recovered_def Let_def)

lemma check_node_total_failures:
  "total_failures (check_node m now to e) =
     (if now - snd e > to \<and> fst e \<notin> failed_nodes m then total_failures m + 1 else total_failures m)"
  by (auto simp: check_node_def mark_node_failed_def mark_node_recovered_def Let_def)

lemma check_node_events:
  "events (check_node m now to e) = events m @ node_events m now to e"
  by (simp add: check_node_def mark_node_failed_def mark_node_recovered_def Let_def node_events_def)

lemma node_events_other:
  "fst e' \<noteq> fst e \<Longrightarrow> node_events (check_node m now to e) now to e' = node_events m now to e'"
  by (simp add: node_events_def check_node_failed check_node_flags)

lemma check_loop_spec:
  assumes "distinct (map fst xs)"
  shows "failed_nodes (check_loop m now to xs) =
           (failed_nodes m \<union> {n. \<exists>t. (n, t) \<in> set xs \<and> now - t > to})
             - {n. \<exists>t. (n, t) \<in> set xs \<and> \<not> now - t > to}"
    and "events (check_loop m now to xs) = events m @ concat (map (node_events m now to) xs)"
    and "on_node_failure (check_loop m now to xs) = on_node_failure m"
  using assms
proof (induction xs arbitrary: m)
  case Nil
  { case 1 show ?case by simp }
  { case 2 show ?case by simp }
  { case 3 show ?case by simp }
next
  case (Cons e rest)
  { case 1
    then have d: "distinct (map fst rest)" and ne: "fst e \<notin> fst ` set rest" by simp_all
    have ne': "(fst e, t) \<notin> set rest" for t using ne by (metis fst_conv image_eqI)
    show ?case
      using ne' by (cases e) (auto simp: Cons.IH(1)[OF d] check_node_failed) }
  { case 2
    then have d: "distinct (map fst rest)" and ne: "fst e \<notin> fst ` set rest" by simp_all
    have "map (node_events (check_node m now to e) now to) rest = map (node_events m now to) rest"
    proof (rule map_cong[OF refl])
      fix x assume "x \<in> set rest"
      with ne have "fst x \<noteq> fst e" by (metis image_eqI)
      then show "node_events (check_node m now to e) now to x = node_events m now to x"
        by (rule node_events_other)
    qed
    then have "concat (map (node_events (check_node m now to e) now to) rest)
                 = concat (map (node_events m now to) rest)" by (rule arg_cong)
    then show ?case
      by (simp only: check_loop.simps Cons.IH(2)[OF d] check_node_events list.map concat.simps append_assoc) }
  { case 3
    then have d: "distinct (map fst rest)" by simp
    show ?case by (simp add: Cons.IH(3)[OF d] check_node_flags) }
qed

lemma check_loop_healthy:
  assumes "distinct (map fst xs)"
  shows "healthy_nodes (check_loop m now to xs) =
           (healthy_nodes m - {n. n \<notin> failed_nodes m \<and> (\<exists>t. (n, t) \<in> set xs \<and> now - t > to)})
             \<union> {n. \<exists>t. (n, t) \<in> set xs \<and> \<not> now - t > to}"
  using assms
proof (induction xs arbitrary: m)
  case Nil
  show ?case by simp
next
  case (Cons e rest)
  then have d: "distinct (map fst rest)" and ne: "fst e \<notin> fst ` set rest" by simp_all
  have ne': "(fst e, t) \<notin> set rest" for t using ne by (metis fst_conv image_eqI)
  show ?case
    using ne' by (cases e) (auto simp: Cons.IH[OF d] check_node_failed check_node_healthy)
qed

lemma check_loop_total_failures:
  assumes "distinct (map fst xs)"
  shows "total_failures (check_loop m now to xs) =
           total_failures m + int (length (filter (\<lambda>e. now - snd e > to \<and> fst e \<notin> failed_nodes m) xs))"
  using assms
proof (induction xs arbitrary: m)
  case Nil
  show ?case by simp
next
  case (Cons e rest)
  then have d: "distinct (map fst rest)" and ne: "fst e \<notin> fst ` set rest" by simp_all
  have same: "filter (\<lambda>x. now - snd x > to \<and> fst x \<notin> failed_nodes (check_node m now to e)) rest
            = filter (\<lambda>x. now - snd x > to \<and> fst x \<notin> failed_nodes m) rest"
  proof (rule filter_cong[OF refl])
    fix x assume "x \<in> set rest"
    with ne have "fst x \<noteq> fst e" by (metis image_eqI)
    then show "(now - snd x > to \<and> fst x \<notin> failed_nodes (check_node m now to e))
             = (now - snd x > to \<and> fst x \<notin> failed_nodes m)"
      by (auto simp: check_node_failed)
  qed
  show ?case
    by (simp add: Cons.IH[OF d] same check_node_total_failures)
qed

lemma count_node_events_one:
  "count_list (node_events m now to (a, b)) (NodeFailure n) =
      (if on_node_failure m \<and> n \<notin> failed_nodes m \<and> a = n \<and> now - b > to then 1 else 0)"
  by (auto simp: node_events_def)

lemma count_node_events:
  assumes "distinct (map fst xs)"
  shows "count_list (concat (map (node_events m now to) xs)) (NodeFailure n) =
           (if on_node_failure m \<and> n \<notin> failed_nodes m \<and> (\<exists>t. (n, t) \<in> set xs \<and> now - t > to)
            then 1 else 0)"
  using assms
proof (induction xs)
  case Nil
  then show ?case by simp
next
  case (Cons e rest)
  obtain a b where e: "e = (a, b)" by (cases e)
  from Cons.prems have d: "distinct (map fst rest)" and ne: "a \<notin> fst ` set rest" by (simp_all add: e)
  have ne': "(a, t) \<notin> set rest" for t using ne by (metis fst_conv image_eqI)
  note here = count_node_events_one
  show ?case
  proof (cases "a = n")
    case True
    then have "\<not> (\<exists>t. (n, t) \<in> set rest \<and> now - t > to)" using ne' by blast
    then show ?thesis using True
      by (auto simp: e Cons.IH[OF d] here)
  next
    case False
    then show ?thesis
      by (auto simp: e Cons.IH[OF d] here)
  qed
qed

lemma receive_heartbeat_spec:
  fixes m :: "'m HeartbeatMonitor"
  shows "map_of (last_heartbeat (receive_heartbeat m hb now)) (hb_node_id hb) = Some now"
    and "distinct (map fst (last_heartbeat m)) \<Longrightarrow> distinct (map fst (last_heartbeat (receive_heartbeat m hb now)))"
    and "healthy_nodes (receive_heartbeat m hb now) = insert (hb_node_id hb) (healthy_nodes m)"
    and "failed_nodes (receive_heartbeat m hb now) = failed_nodes m - {hb_node_id hb}"
    and "fired m (receive_heartbeat m hb now) =
           (if hb_node_id hb \<in> failed_nodes m \<and> on_node_recovery m then [NodeRecovery (hb_node_id hb)] else [])"
    and "total_recoveries (receive_heartbeat m hb now) =
           (if hb_node_id hb \<in> failed_nodes m then total_recoveries m + 1 else total_recoveries m)"
  by (auto simp: receive_heartbeat_def mark_node_recovered_def Let_def fired_def
        update_conv' distinct_update)


text \<open>
  Claim C6.  A heartbeat from a node records its timestamp and leaves the node in the HEALTHY
  set; when the node was in the FAILED set it is moved from FAILED to HEALTHY and the
  registered recovery callback is called, otherwise no callback is called.  One sweep of
  the periodic check moves a node into FAILED and out of HEALTHY, and calls the registered
  failure callback for it once, exactly when \<open>now - last_heartbeat\<close> exceeds \<open>failure_timeout\<close>
  and the node is not already in FAILED; every other node stays out of FAILED unless it
  was there and has no fresh heartbeat, and no failure callback is called for it.  When
  \<open>failure_timeout\<close> is beyond what a \<open>timedelta\<close> holds the sweep raises \<open>OverflowError\<close>
  before it looks at any node.
\<close>

theorem heartbeat_monitor_transitions:
  fixes m :: "'m HeartbeatMonitor"
  assumes dist: "distinct (map fst (last_heartbeat m))"
  shows "(let m' = receive_heartbeat m hb now; nid = hb_node_id hb
          in map_of (last_heartbeat m') nid = Some now \<and>
             healthy_nodes m' = insert nid (healthy_nodes m) \<and>
             failed_nodes m' = failed_nodes m - {nid} \<and>
             distinct (map fst (last_heartbeat m')) \<and>
             (if nid \<in> failed_nodes m
              then nid \<in> healthy_nodes m' \<and> nid \<notin> failed_nodes m' \<and>
                   fired m m' = (if on_node_recovery m then [NodeRecovery nid] else []) \<and>
                   total_recoveries m' = total_recoveries m + 1
              else nid \<in> healthy_nodes m' \<and> fired m m' = [] \<and>
                   total_recoveries m' = total_recoveries m)) \<and>
         (if - 86399999913600 \<le> failure_timeout (monitoring (hm_config m)) \<and>
             failure_timeout (monitoring (hm_config m)) \<le> 86399999999999
          then \<exists>m'. check_all_nodes m now = Inr m' \<and>
                 last_heartbeat m' = last_heartbeat m \<and>
                 total_failures m' = total_failures m +
                   int (length (filter (\<lambda>e. timed_out m now (fst e) \<and> fst e \<notin> failed_nodes m)
                                  (last_heartbeat m))) \<and>
                 (\<forall>nid. (nid \<in> failed_nodes m' \<and> nid \<notin> failed_nodes m) =
                           (timed_out m now nid \<and> nid \<notin> failed_nodes m) \<and>
                        count_list (fired m m') (NodeFailure nid) =
                           (if timed_out m now nid \<and> nid \<notin> failed_nodes m \<and> on_node_failure m
                            then 1 else 0) \<and>
                        (if timed_out m now nid \<and> nid \<notin> failed_nodes m
                         then nid \<in> failed_nodes m' \<and> nid \<notin> healthy_nodes m'
                         else (nid \<in> failed_nodes m') =
                                (nid \<in> failed_nodes m \<and> (timed_out m now nid \<or> \<not> known_node m nid)) \<and>
                              (nid \<in> healthy_nodes m') =
                                (nid \<in> healthy_nodes m \<or> known_node m nid \<and> \<not> timed_out m now nid)))
          else check_all_nodes m now = Inl OverflowError)"
proof -
  let ?s = "failure_timeout (monitoring (hm_config m))"
  let ?to = "?s * 1000000"
  let ?m' = "check_loop m now ?to (last_heartbeat m)"
  have late: "(\<exists>t. (n, t) \<in> set (last_heartbeat m) \<and> now - t > ?to) = timed_out m now n" for n
  proof -
    have "(\<exists>t. (n, t) \<in> set (last_heartbeat m) \<and> now - t > ?to)
            = (\<exists>t. map_of (last_heartbeat m) n = Some t \<and> now - t > ?to)"
      by (simp add: map_of_eq_Some_iff[OF dist])
    also have "\<dots> = timed_out m now n"
      by (cases "map_of (last_heartbeat m) n") (simp_all add: timed_out_def)
    finally show ?thesis .
  qed
  have fresh: "(\<exists>t. (n, t) \<in> set (last_heartbeat m) \<and> \<not> now - t > ?to)
                 = (known_node m n \<and> \<not> timed_out m now n)" for n
  proof -
    have "(\<exists>t. (n, t) \<in> set (last_heartbeat m) \<and> \<not> now - t > ?to)
            = (\<exists>t. map_of (last_heartbeat m) n = Some t \<and> \<not> now - t > ?to)"
      by (simp add: map_of_eq_Some_iff[OF dist])
    also have "\<dots> = (known_node m n \<and> \<not> timed_out m now n)"
      by (cases "map_of (last_heartbeat m) n") (simp_all add: timed_out_def known_node_def)
    finally show ?thesis .
  qed
  have known: "known_node m n" if "timed_out m now n" for n
    using that by (cases "map_of (last_heartbeat m) n") (simp_all add: timed_out_def known_node_def)
  have f: "(n \<in> failed_nodes ?m') =
             ((n \<in> failed_nodes m \<or> timed_out m now n) \<and> \<not> (known_node m n \<and> \<not> timed_out m now n))" for n
    unfolding check_loop_spec(1)[OF dist] using late[of n] fresh[of n] by simp
  have h: "(n \<in> healthy_nodes ?m') =
             (n \<in> healthy_nodes m \<and> \<not> (n \<notin> failed_nodes m \<and> timed_out m now n)
              \<or> known_node m n \<and> \<not> timed_out m now n)" for n
    unfolding check_loop_healthy[OF dist] using late[of n] fresh[of n] by simp
  have lh: "last_heartbeat (check_loop m' now to xs) = last_heartbeat m'"
    for m' :: "'m HeartbeatMonitor" and to xs
    by (induction xs arbitrary: m') (simp_all add: check_node_flags)
  have ev: "fired m ?m' = concat (map (node_events m now ?to) (last_heartbeat m))"
    unfolding fired_def check_loop_spec(2)[OF dist] by simp
  have cnt: "count_list (fired m ?m') (NodeFailure nid) =
                     (if timed_out m now nid \<and> nid \<notin> failed_nodes m \<and> on_node_failure m
                      then 1 else 0)" for nid
    unfolding ev count_node_events[OF dist] late by auto
  have same: "filter (\<lambda>e. now - snd e > ?to \<and> fst e \<notin> failed_nodes m) (last_heartbeat m)
            = filter (\<lambda>e. timed_out m now (fst e) \<and> fst e \<notin> failed_nodes m) (last_heartbeat m)"
  proof (rule filter_cong[OF refl])
    fix e assume "e \<in> set (last_heartbeat m)"
    then have "(fst e, snd e) \<in> set (last_heartbeat m)" by simp
    then have "map_of (last_heartbeat m) (fst e) = Some (snd e)"
      by (simp only: map_of_eq_Some_iff[OF dist])
    then have "timed_out m now (fst e) = (now - snd e > ?to)" by (simp add: timed_out_def)
    then show "(now - snd e > ?to \<and> fst e \<notin> failed_nodes m)
             = (timed_out m now (fst e) \<and> fst e \<notin> failed_nodes m)" by simp
  qed
  have tf: "total_failures ?m' = total_failures m +
              int (length (filter (\<lambda>e. timed_out m now (fst e) \<and> fst e \<notin> failed_nodes m)
                             (last_heartbeat m)))"
    unfolding check_loop_total_failures[OF dist] same ..
  have each: "(nid \<in> failed_nodes ?m' \<and> nid \<notin> failed_nodes m) =
                 (timed_out m now nid \<and> nid \<notin> failed_nodes m) \<and>
              count_list (fired m ?m') (NodeFailure nid) =
                 (if timed_out m now nid \<and> nid \<notin> failed_nodes m \<and> on_node_failure m
                  then 1 else 0) \<and>
              (if timed_out m now nid \<and> nid \<notin> failed_nodes m
               then nid \<in> failed_nodes ?m' \<and> nid \<notin> healthy_nodes ?m'
               else (nid \<in> failed_nodes ?m') =
                      (nid \<in> failed_nodes m \<and> (timed_out m now nid \<or> \<not> known_node m nid)) \<and>
                    (nid \<in> healthy_nodes ?m') =
                      (nid \<in> healthy_nodes m \<or> known_node m nid \<and> \<not> timed_out m now nid))" for nid
    unfolding f h cnt using known[of nid] by auto
  have part2: "if - 86399999913600 \<le> ?s \<and> ?s \<le> 86399999999999
          then \<exists>m'. check_all_nodes m now = Inr m' \<and>
                 last_heartbeat m' = last_heartbeat m \<and>
                 total_failures m' = total_failures m +
                   int (length (filter (\<lambda>e. timed_out m now (fst e) \<and> fst e \<notin> failed_nodes m)
                                  (last_heartbeat m))) \<and>
                 (\<forall>nid. (nid \<in> failed_nodes m' \<and> nid \<notin> failed_nodes m) =
                           (timed_out m now nid \<and> nid \<notin> failed_nodes m) \<and>
                        count_list (fired m m') (NodeFailure nid) =
                           (if timed_out m now nid \<and> nid \<notin> failed_nodes m \<and> on_node_failure m
                            then 1 else 0) \<and>
                        (if timed_out m now nid \<and> nid \<notin> failed_nodes m
                         then nid \<in> failed_nodes m' \<and> nid \<notin> healthy_nodes m'
                         else (nid \<in> failed_nodes m') =
                                (nid \<in> failed_nodes m \<and> (timed_out m now nid \<or> \<not> known_node m nid)) \<and>
                              (nid \<in> healthy_nodes m') =
                                (nid \<in> healthy_nodes m \<or> known_node m nid \<and> \<not> timed_out m now nid)))
          else check_all_nodes m now = Inl OverflowError"
  proof (cases "- 86399999913600 \<le> ?s \<and> ?s \<le> 86399999999999")
    case True
    then have run: "check_all_nodes m now = Inr ?m'"
      by (simp add: check_all_nodes_def timedelta_seconds_def)
    have "\<exists>m'. check_all_nodes m now = Inr m' \<and>
                 last_heartbeat m' = last_heartbeat m \<and>
                 total_failures m' = total_failures m +
                   int (length (filter (\<lambda>e. timed_out m now (fst e) \<and> fst e \<notin> failed_nodes m)
                                  (last_heartbeat m))) \<and>
                 (\<forall>nid. (nid \<in> failed_nodes m' \<and> nid \<notin> failed_nodes m) =
                           (timed_out m now nid \<and> nid \<notin> failed_nodes m) \<and>
                        count_list (fired m m') (NodeFailure nid) =
                           (if timed_out m now nid \<and> nid \<notin> failed_nodes m \<and> on_node_failure m
                            then 1 else 0) \<and>
                        (if timed_out m now nid \<and> nid \<notin> failed_nodes m
                         then nid \<in> failed_nodes m' \<and> nid \<notin> healthy_nodes m'
                         else (nid \<in> failed_nodes m') =
                                (nid \<in> failed_nodes m \<and> (timed_out m now nid \<or> \<not> known_node m nid)) \<and>
                              (nid \<in> healthy_nodes m') =
                                (nid \<in> healthy_nodes m \<or> known_node m nid \<and> \<not> timed_out m now nid)))"
      by (intro exI[of _ ?m'] conjI allI run lh tf each)
    then show ?thesis by (simp only: if_P[OF True])
  next
    case False
    then have "check_all_nodes m now = Inl OverflowError"
      by (auto simp: check_all_nodes_def timedelta_seconds_def)
    then show ?thesis by (simp only: if_not_P[OF False])
  qed
  have part1: "let m' = receive_heartbeat m hb now; nid = hb_node_id hb
          in map_of (last_heartbeat m') nid = Some now \<and>
             healthy_nodes m' = insert nid (healthy_nodes m) \<and>
             failed_nodes m' = failed_nodes m - {nid} \<and>
             distinct (map fst (last_heartbeat m')) \<and>
             (if nid \<in> failed_nodes m
              then nid \<in> healthy_nodes m' \<and> nid \<notin> failed_nodes m' \<and>
                   fired m m' = (if on_node_recovery m then [NodeRecovery nid] else []) \<and>
                   total_recoveries m' = total_recoveries m + 1
              else nid \<in> healthy_nodes m' \<and> fired m m' = [] \<and>
                   total_recoveries m' = total_recoveries m)"
    unfolding Let_def
    by (simp add: receive_heartbeat_spec(1,3,4,5,6) receive_heartbeat_spec(2)[OF dist])
  show ?thesis using part1 part2 by (rule conjI)
qed


lemma monitor_two_state:
  "last_heartbeat monitor_two = [(''node-1'', 0), (''node-2'', 20000000)]"
  "failed_nodes monitor_two = {}"
  "healthy_nodes monitor_two = {''node-1'', ''node-2''}"
  "on_node_failure monitor_two" "on_node_recovery monitor_two"
  "hm_config monitor_two = default_config"
  "total_failures monitor_two = 0"
  by (auto simp: monitor_two_def receive_heartbeat_def wired_monitor_def new_monitor_def beat_def
        register_failure_callback_def register_recovery_callback_def Let_def)

lemma monitor_overflow_state:
  "last_heartbeat monitor_overflow = [(''node-1'', 0)]"
  "failure_timeout (monitoring (hm_config monitor_overflow)) = 86400000000000"
  by (simp_all add: monitor_overflow_def receive_heartbeat_def new_monitor_def beat_def Let_def)

theorem heartbeat_monitor_transitions_witness:
  "timed_out monitor_two 31000000 ''node-1'' \<and>
   \<not> timed_out monitor_two 31000000 ''node-2'' \<and>
   (\<exists>m3. check_all_nodes monitor_two 31000000 = Inr m3 \<and>
      ''node-1'' \<in> failed_nodes m3 \<and> ''node-1'' \<notin> healthy_nodes m3 \<and>
      ''node-2'' \<notin> failed_nodes m3 \<and> ''node-2'' \<in> healthy_nodes m3 \<and>
      total_failures m3 = 1 \<and>
      count_list (fired monitor_two m3) (NodeFailure ''node-1'') = 1 \<and>
      count_list (fired monitor_two m3) (NodeFailure ''node-2'') = 0 \<and>
      fired m3 (receive_heartbeat m3 (beat ''node-1'') 40000000) = [NodeRecovery ''node-1''] \<and>
      ''node-1'' \<in> healthy_nodes (receive_heartbeat m3 (beat ''node-1'') 40000000) \<and>
      ''node-1'' \<notin> failed_nodes (receive_heartbeat m3 (beat ''node-1'') 40000000)) \<and>
   check_all_nodes monitor_overflow 0 = Inl OverflowError"
proof -
  have d2: "distinct (map fst (last_heartbeat monitor_two))" by (simp add: monitor_two_state)
  have t1: "timed_out monitor_two 31000000 ''node-1''"
    by (simp add: timed_out_def monitor_two_state default_config_def)
  have t2: "\<not> timed_out monitor_two 31000000 ''node-2''"
    by (simp add: timed_out_def monitor_two_state default_config_def)
  have k2: "known_node monitor_two ''node-2''"
    by (simp add: known_node_def monitor_two_state)
  from heartbeat_monitor_transitions[OF d2, of "beat ''node-1''" 31000000]
  obtain m3 where run: "check_all_nodes monitor_two 31000000 = Inr m3"
    and lh3: "last_heartbeat m3 = last_heartbeat monitor_two"
    and tf3: "total_failures m3 = total_failures monitor_two +
                int (length (filter (\<lambda>e. timed_out monitor_two 31000000 (fst e) \<and>
                                         fst e \<notin> failed_nodes monitor_two)
                               (last_heartbeat monitor_two)))"
    and sweep: "\<And>nid. (nid \<in> failed_nodes m3 \<and> nid \<notin> failed_nodes monitor_two) =
                     (timed_out monitor_two 31000000 nid \<and> nid \<notin> failed_nodes monitor_two) \<and>
                   count_list (fired monitor_two m3) (NodeFailure nid) =
                     (if timed_out monitor_two 31000000 nid \<and> nid \<notin> failed_nodes monitor_two \<and>
                         on_node_failure monitor_two then 1 else 0) \<and>
                   (if timed_out monitor_two 31000000 nid \<and> nid \<notin> failed_nodes monitor_two
                    then nid \<in> failed_nodes m3 \<and> nid \<notin> healthy_nodes m3
                    else (nid \<in> failed_nodes m3) =
                           (nid \<in> failed_nodes monitor_two \<and>
                            (timed_out monitor_two 31000000 nid \<or> \<not> known_node monitor_two nid)) \<and>
                         (nid \<in> healthy_nodes m3) =
                           (nid \<in> healthy_nodes monitor_two \<or>
                            known_node monitor_two nid \<and> \<not> timed_out monitor_two 31000000 nid))"
    by (auto simp: monitor_two_state default_config_def)
  from sweep[of "''node-1''"] t1
  have f1: "''node-1'' \<in> failed_nodes m3" and h1: "''node-1'' \<notin> healthy_nodes m3"
    and c1: "count_list (fired monitor_two m3) (NodeFailure ''node-1'') = 1"
    by (simp_all add: monitor_two_state)
  from sweep[of "''node-2''"] t2 k2
  have f2: "''node-2'' \<notin> failed_nodes m3" and h2: "''node-2'' \<in> healthy_nodes m3"
    and c2: "count_list (fired monitor_two m3) (NodeFailure ''node-2'') = 0"
    by (simp_all add: monitor_two_state)
  have tf: "total_failures m3 = 1"
    using t1 t2 by (simp add: tf3 monitor_two_state)
  have d3: "distinct (map fst (last_heartbeat m3))" by (simp add: lh3 monitor_two_state)
  have "check_all_nodes monitor_two 31000000 = Inr (check_loop monitor_two 31000000 30000000 (last_heartbeat monitor_two))"
    by (simp add: check_all_nodes_def timedelta_seconds_def monitor_two_state default_config_def)
  with run have "m3 = check_loop monitor_two 31000000 30000000 (last_heartbeat monitor_two)" by simp
  then have rec3: "on_node_recovery m3"
    by (simp add: monitor_two_state check_node_flags)
  from heartbeat_monitor_transitions[OF d3, of "beat ''node-1''" 40000000] f1 rec3
  have r: "fired m3 (receive_heartbeat m3 (beat ''node-1'') 40000000) = [NodeRecovery ''node-1'']"
      "''node-1'' \<in> healthy_nodes (receive_heartbeat m3 (beat ''node-1'') 40000000)"
      "''node-1'' \<notin> failed_nodes (receive_heartbeat m3 (beat ''node-1'') 40000000)"
    unfolding Let_def by (simp_all add: beat_def)
  have dov: "distinct (map fst (last_heartbeat monitor_overflow))"
    by (simp add: monitor_overflow_state)
  from heartbeat_monitor_transitions[OF dov, of "beat ''node-1''" 0]
  have ov: "check_all_nodes monitor_overflow 0 = Inl OverflowError"
    by (simp add: monitor_overflow_state)
  from run f1 h1 f2 h2 tf c1 c2 r
  have "\<exists>m3. check_all_nodes monitor_two 31000000 = Inr m3 \<and>
      ''node-1'' \<in> failed_nodes m3 \<and> ''node-1'' \<notin> healthy_nodes m3 \<and>
      ''node-2'' \<notin> failed_nodes m3 \<and> ''node-2'' \<in> healthy_nodes m3 \<and>
      total_failures m3 = 1 \<and>
      count_list (fired monitor_two m3) (NodeFailure ''node-1'') = 1 \<and>
      count_list (fired monitor_two m3) (NodeFailure ''node-2'') = 0 \<and>
      fired m3 (receive_heartbeat m3 (beat ''node-1'') 40000000) = [NodeRecovery ''node-1''] \<and>
      ''node-1'' \<in> healthy_nodes (receive_heartbeat m3 (beat ''node-1'') 40000000) \<and>
      ''node-1'' \<notin> failed_nodes (receive_heartbeat m3 (beat ''node-1'') 40000000)"
    by (intro exI[of _ m3]) simp
  with t1 t2 ov show ?thesis by (intro conjI)
qed

section \<open>Verification of the distributed storage node\<close>

lemma handle_store_chunk_accepted:
  assumes "payload \<noteq> []"
  shows "handle_store_chunk H node (store_message fid cid payload) =
           Inr (node\<lparr> stored_chunks :=
                        AList.update (chunk_key fid cid)
                          \<lparr> chunk_id = cid, size = int (length payload), data = payload,
                            checksum = H ''sha256'' payload, status = COMPLETED, stored_nodes = {} \<rparr>
                          (stored_chunks node),
                      dn_used_storage := dn_used_storage node + int (length payload) \<rparr>,
                Success_reply fid cid (H ''sha256'' payload) (int (length payload)) (dn_node_id node))"
  using assms by (simp add: handle_store_chunk_def store_message_def Let_def)

lemma empty_store_rejected:
  "handle_message H node (store_message fid cid []) =
     (node, Error_reply (ValueError ''No chunk data provided''))"
  by (simp add: handle_message_def handle_store_chunk_def store_message_def)






lemma sum_update_present:
  assumes "distinct (map fst al)" "map_of al k = Some old"
  shows "sum_list (map f (AList.update k v al)) = sum_list (map f al) - f (k, old) + (f (k, v) :: int)"
    and "map fst (AList.update k v al) = map fst al"
  using assms
proof (induction al)
  case Nil
  { case 1 then show ?case by simp }
  { case 2 then show ?case by simp }
next
  case (Cons a al)
  { case 1
    then show ?case using Cons.IH(1)
      by (cases a) (auto simp: image_iff dest: map_of_SomeD) }
  { case 2
    then show ?case using Cons.IH(2)
      by (cases a) (auto simp: image_iff dest: map_of_SomeD) }
qed

lemma sum_update_absent:
  assumes "map_of al k = None"
  shows "sum_list (map f (AList.update k v al)) = sum_list (map f al) + (f (k, v) :: int)"
  using assms by (induction al) (auto split: if_splits)

lemma store_state:
  assumes p: "payload \<noteq> []"
  shows "fst (handle_message H node (store_message fid cid payload)) =
      node\<lparr> stored_chunks :=
                        AList.update (chunk_key fid cid)
                          \<lparr> chunk_id = cid, size = int (length payload), data = payload,
                            checksum = H ''sha256'' payload, status = COMPLETED, stored_nodes = {} \<rparr>
                          (stored_chunks node),
                      dn_used_storage := dn_used_storage node + int (length payload) \<rparr>"
  by (simp add: handle_message_def handle_store_chunk_accepted[OF p]) (simp add: store_message_def)

lemma held_after_store:
  assumes d: "distinct (map fst (stored_chunks node))" and p: "payload \<noteq> []"
  shows "held_bytes (fst (handle_message H node (store_message fid cid payload))) =
           (case map_of (stored_chunks node) (chunk_key fid cid) of
              None \<Rightarrow> held_bytes node + int (length payload)
            | Some old \<Rightarrow> held_bytes node - size old + int (length payload))"
proof (cases "map_of (stored_chunks node) (chunk_key fid cid)")
  case None
  then show ?thesis
    unfolding store_state[OF p] held_bytes_def by (simp add: sum_update_absent)
next
  case (Some old)
  then show ?thesis
    unfolding store_state[OF p] held_bytes_def by (simp add: sum_update_present(1)[OF d Some])
qed


lemma list_all_update:
  "list_all P al \<Longrightarrow> P (k, v) \<Longrightarrow> list_all P (AList.update k v al)"
  by (induction al) auto

lemma handle_message_cases:
  "fst (handle_message H node message) = node \<or>
   (\<exists>fid cid payload. payload \<noteq> [] \<and> message = store_message fid cid payload)"
  by (cases message)
     (auto simp: handle_message_def handle_store_chunk_def store_message_def Let_def
           split: option.splits sum.splits if_splits)

lemma dnode_inv_new: "dnode_inv (new_distributed_node nid capacity)"
  by (simp add: dnode_inv_def new_distributed_node_def held_bytes_def)

lemma dnode_inv_step:
  assumes inv: "dnode_inv node"
  shows "dnode_inv (fst (handle_message H node message))"
proof -
  from handle_message_cases[of H node message]
  consider "fst (handle_message H node message) = node"
    | fid cid payload where "payload \<noteq> []" "message = store_message fid cid payload"
    by blast
  then show ?thesis
  proof cases
    case 1
    then show ?thesis using inv by simp
  next
    case 2
    from inv have d: "distinct (map fst (stored_chunks node))"
      and pos: "list_all (\<lambda>kv. 0 < size (snd kv)) (stored_chunks node)"
      and le: "held_bytes node \<le> dn_used_storage node"
      by (simp_all add: dnode_inv_def)
    let ?node' = "fst (handle_message H node (store_message fid cid payload))"
    have d': "distinct (map fst (stored_chunks ?node'))"
      unfolding store_state[OF 2(1)] using d by (simp add: distinct_update)
    have pos': "list_all (\<lambda>kv. 0 < size (snd kv)) (stored_chunks ?node')"
      unfolding store_state[OF 2(1)] using pos 2(1) by (simp add: list_all_update)
    have "0 \<le> size old" if "map_of (stored_chunks node) (chunk_key fid cid) = Some old" for old
      using pos map_of_SomeD[OF that] by (auto simp: list_all_iff)
    then have "held_bytes ?node' \<le> held_bytes node + int (length payload)"
      unfolding held_after_store[OF d 2(1)] by (auto split: option.splits)
    moreover have "dn_used_storage ?node' = dn_used_storage node + int (length payload)"
      unfolding store_state[OF 2(1)] by simp
    ultimately have "held_bytes ?node' \<le> dn_used_storage ?node'" using le by simp
    with d' pos' show ?thesis unfolding 2(2) dnode_inv_def by simp
  qed
qed

lemma dnode_inv_serve: "dnode_inv node \<Longrightarrow> dnode_inv (serve H node msgs)"
  by (induction msgs arbitrary: node) (simp_all add: dnode_inv_step)

text \<open>
  Claim C9.  On a node reached by serving messages from its initial state, a \<open>STORE_CHUNK\<close>
  for a key that is already stored is answered by a success reply, replaces the chunk under
  that key (the keys stay as they were), and adds the full length of the new payload to
  \<open>used_storage\<close>; the bytes actually held change by the new length less the replaced
  chunk's size, so \<open>used_storage\<close> is then strictly greater than the bytes held.
\<close>

theorem overwrite_double_counts:
  assumes reach: "node = serve H (new_distributed_node nid capacity) msgs"
    and present: "map_of (stored_chunks node) (chunk_key fid cid) = Some old"
    and accepted: "payload \<noteq> []"
  shows "\<exists>node' r. handle_message H node (store_message fid cid payload) = (node', r) \<and>
           r = Success_reply fid cid (H ''sha256'' payload) (int (length payload)) (dn_node_id node) \<and>
           map_of (stored_chunks node') (chunk_key fid cid) =
             Some \<lparr> chunk_id = cid, size = int (length payload), data = payload,
                    checksum = H ''sha256'' payload, status = COMPLETED, stored_nodes = {} \<rparr> \<and>
           map fst (stored_chunks node') = map fst (stored_chunks node) \<and>
           dn_used_storage node' = dn_used_storage node + int (length payload) \<and>
           held_bytes node' = held_bytes node - size old + int (length payload) \<and>
           held_bytes node' < dn_used_storage node'"
proof -
  have inv: "dnode_inv node" unfolding reach by (intro dnode_inv_serve dnode_inv_new)
  then have d: "distinct (map fst (stored_chunks node))"
    and pos: "list_all (\<lambda>kv. 0 < size (snd kv)) (stored_chunks node)"
    and le: "held_bytes node \<le> dn_used_storage node"
    by (simp_all add: dnode_inv_def)
  let ?chunk = "\<lparr> chunk_id = cid, size = int (length payload), data = payload,
                    checksum = H ''sha256'' payload, status = COMPLETED, stored_nodes = {} \<rparr>"
  let ?node' = "node\<lparr> stored_chunks := AList.update (chunk_key fid cid) ?chunk (stored_chunks node),
                      dn_used_storage := dn_used_storage node + int (length payload) \<rparr>"
  have run: "handle_message H node (store_message fid cid payload) =
          (?node', Success_reply fid cid (H ''sha256'' payload) (int (length payload)) (dn_node_id node))"
    by (simp add: handle_message_def handle_store_chunk_accepted[OF accepted])
       (simp add: store_message_def)
  have look: "map_of (stored_chunks ?node') (chunk_key fid cid) = Some ?chunk"
    by (simp add: update_conv')
  have keys: "map fst (stored_chunks ?node') = map fst (stored_chunks node)"
    by (simp add: sum_update_present(2)[OF d present])
  have held: "held_bytes ?node' = held_bytes node - size old + int (length payload)"
    using held_after_store[OF d accepted, of H fid cid] present
    by (simp add: store_state[OF accepted])
  have "0 < size old" using pos map_of_SomeD[OF present] by (auto simp: list_all_iff)
  with held le have lt: "held_bytes ?node' < dn_used_storage ?node'" by simp
  show ?thesis
    by (intro exI[of _ ?node'] exI[of _ "Success_reply fid cid (H ''sha256'' payload) (int (length payload)) (dn_node_id node)"] conjI run refl look keys held lt) simp
qed


lemma chunk_key_f0: "chunk_key ''f'' 0 = ''f_0''" "chunk_key ''g'' 1 = ''g_1''"
  by code_simp+


theorem overwrite_double_counts_witness:
  "dn_used_storage (serve plain_digest demo_node
      [store_message ''f'' 0 [1, 2, 3], store_message ''f'' 0 [4, 5]]) = 5 \<and>
   held_bytes (serve plain_digest demo_node
      [store_message ''f'' 0 [1, 2, 3], store_message ''f'' 0 [4, 5]]) = 2 \<and>
   map (\<lambda>kv. (fst kv, data (snd kv))) (stored_chunks (serve plain_digest demo_node
      [store_message ''f'' 0 [1, 2, 3], store_message ''f'' 0 [4, 5]])) = [(''f_0'', [4, 5])]"
proof -
  let ?old = "\<lparr> chunk_id = 0, size = 3, data = [1, 2, 3 :: byte],
                 checksum = plain_digest ''sha256'' [1, 2, 3], status = COMPLETED, stored_nodes = {} \<rparr>"
  let ?node = "serve plain_digest (new_distributed_node ''node-1'' 1000) [store_message ''f'' 0 [1, 2, 3]]"
  have ne1: "[1, 2, 3] \<noteq> ([] :: bytes)" and ne2: "[4, 5] \<noteq> ([] :: bytes)" by simp_all
  have node: "?node = \<lparr> dn_node_id = ''node-1'', storage_capacity = 1000,
                          stored_chunks = [(''f_0'', ?old)], dn_used_storage = 3,
                          running = False, registered = False \<rparr>"
    by (simp add: store_state[OF ne1] new_distributed_node_def chunk_key_f0)
  have present: "map_of (stored_chunks ?node) (chunk_key ''f'' 0) = Some ?old"
    unfolding node by (simp add: chunk_key_f0)
  from overwrite_double_counts[OF refl present ne2]
  obtain node' r where
    run: "handle_message plain_digest ?node (store_message ''f'' 0 [4, 5]) = (node', r)"
    and look: "map_of (stored_chunks node') (chunk_key ''f'' 0) =
                 Some \<lparr> chunk_id = 0, size = int (length [4, 5 :: byte]), data = [4, 5],
                        checksum = plain_digest ''sha256'' [4, 5], status = COMPLETED, stored_nodes = {} \<rparr>"
    and keys: "map fst (stored_chunks node') = map fst (stored_chunks ?node)"
    and used: "dn_used_storage node' = dn_used_storage ?node + int (length [4, 5 :: byte])"
    and held: "held_bytes node' = held_bytes ?node - size ?old + int (length [4, 5 :: byte])"
    by blast
  have srv: "serve plain_digest demo_node [store_message ''f'' 0 [1, 2, 3], store_message ''f'' 0 [4, 5]] = node'"
    using run by (simp add: demo_node_def)
  have u: "dn_used_storage node' = 5" using used unfolding node by simp
  have h: "held_bytes node' = 2" using held unfolding node by (simp add: held_bytes_def)
  from keys have "map fst (stored_chunks node') = [''f_0'']" unfolding node by simp
  then obtain c where sc: "stored_chunks node' = [(''f_0'', c)]"
    by (cases "stored_chunks node'") auto
  with look have "data c = [4, 5]" by (simp add: chunk_key_f0)
  with sc have d: "map (\<lambda>kv. (fst kv, data (snd kv))) (stored_chunks node') = [(''f_0'', [4, 5])]"
    by simp
  show ?thesis unfolding srv using u h d by simp
qed

text \<open>
  The capacity check of claim C2, evaluated.  A \<open>STORE_CHUNK\<close> of 11 bytes to a distributed
  node of capacity 10 is answered by a success reply and leaves \<open>used_storage\<close> at 11; the
  simulated node refuses a file of one byte when its capacity is 0.
\<close>

theorem store_chunk_ignores_capacity:
  "handle_message plain_digest tiny_node (store_message ''f'' 0 (replicate 11 0)) =
     (\<lparr> dn_node_id = ''node-1'', storage_capacity = 10,
        stored_chunks = [(''f_0'', \<lparr> chunk_id = 0, size = 11, data = replicate 11 0,
                                    checksum = plain_digest ''sha256'' (replicate 11 0),
                                    status = COMPLETED, stored_nodes = {} \<rparr>)],
        dn_used_storage = 11, running = False, registered = False \<rparr>,
      Success_reply ''f'' 0 (plain_digest ''sha256'' (replicate 11 0)) 11 ''node-1'') \<and>
   initiate_file_transfer plain_digest (new_node ''node-1'' 4 16 0 100 default_config)
       ''f'' ''f.bin'' [0] None None =
     Inr (new_node ''node-1'' 4 16 0 100 default_config, None)"
proof -
  have ne: "replicate 11 0 \<noteq> ([] :: bytes)" by simp
  have a: "handle_message plain_digest tiny_node (store_message ''f'' 0 (replicate 11 0)) =
     (\<lparr> dn_node_id = ''node-1'', storage_capacity = 10,
        stored_chunks = [(''f_0'', \<lparr> chunk_id = 0, size = 11, data = replicate 11 0,
                                    checksum = plain_digest ''sha256'' (replicate 11 0),
                                    status = COMPLETED, stored_nodes = {} \<rparr>)],
        dn_used_storage = 11, running = False, registered = False \<rparr>,
      Success_reply ''f'' 0 (plain_digest ''sha256'' (replicate 11 0)) 11 ''node-1'')"
    by (simp add: handle_message_def handle_store_chunk_accepted[OF ne] tiny_node_def
          new_distributed_node_def chunk_key_f0)
       (simp add: store_message_def)
  have b: "initiate_file_transfer plain_digest (new_node ''node-1'' 4 16 0 100 default_config)
       ''f'' ''f.bin'' [0] None None =
     Inr (new_node ''node-1'' 4 16 0 100 default_config, None)"
    by (simp add: initiate_file_transfer_def new_node_def Let_def)
  from a b show ?thesis by (rule conjI)
qed

section \<open>Verification of the wire protocol\<close>

lemma u32_digits:
  fixes n :: int
  assumes "0 \<le> n" "n < 4294967296"
  shows "(n div 16777216) mod 256 * 16777216 + (n div 65536) mod 256 * 65536
           + (n div 256) mod 256 * 256 + n mod 256 = n"
proof -
  have a: "n div 16777216 = (n div 65536) div 256" and b: "n div 65536 = (n div 256) div 256"
    by (simp_all add: zdiv_zmult2_eq)
  have "0 \<le> n div 16777216" using assms by simp
  moreover have "n div 16777216 < 256" using assms by simp
  ultimately have top: "(n div 16777216) mod 256 = n div 16777216" by simp
  have "n = (n div 256) * 256 + n mod 256" by simp
  moreover have "n div 256 = (n div 65536) * 256 + (n div 256) mod 256" unfolding b by simp
  moreover have "n div 65536 = (n div 16777216) * 256 + (n div 65536) mod 256" unfolding a by simp
  ultimately show ?thesis unfolding top by linarith
qed


lemma message_type_roundtrip: "message_type_of (JStr (type_value t)) = Inr t"
  by (cases t) (simp_all add: message_type_of_def all_message_types_def)


lemma from_dict_to_dict: "from_dict (to_dict m) = Inr m"
  by (simp add: from_dict_def to_dict_def message_type_roundtrip)


lemma uint_byte: "uint (word_of_int x :: byte) = x mod 256"
  by (simp add: uint_word_of_int)

lemma unpack_pack_u32:
  assumes "0 \<le> n" "n < 4294967296"
  shows "\<exists>bs. pack_u32 n = Inr bs \<and> length bs = 4 \<and> unpack_u32 bs = Inr n"
proof -
  let ?bs = "[word_of_int (n div 16777216), word_of_int (n div 65536),
              word_of_int (n div 256), word_of_int n] :: bytes"
  have p: "pack_u32 n = Inr ?bs" using assms by (simp add: pack_u32_def)
  have "unpack_u32 ?bs = Inr ((n div 16777216) mod 256 * 16777216 + (n div 65536) mod 256 * 65536
           + (n div 256) mod 256 * 256 + n mod 256)"
    unfolding unpack_u32_def by (simp only: list.case uint_byte)
  then have u: "unpack_u32 ?bs = Inr n"
    by (simp only: u32_digits[OF assms])
  from p u show ?thesis by (intro exI[of _ ?bs]) simp
qed


lemma decode_wire:
  assumes codec: "loads jb = Inr (to_dict m)"
    and h: "length h = 4" "unpack_u32 h = Inr tl_len"
    and jh: "length jh = 4" "unpack_u32 jh = Inr (int (length jb))"
    and tot: "tl_len = 4 + int (length jb) + int (length b')"
  shows "decode_message loads (h @ jh @ jb @ b') =
           (if tl_len > MAX_MESSAGE_SIZE
            then Inl (ValueError (''Message too large: '' @ str_int tl_len @ '' bytes''))
            else Inr (m, if b' = [] then None else Some b'))"
proof -
  let ?wire = "h @ jh @ jb @ b'"
  let ?payload = "jh @ jb @ b'"
  have s1: "py_slice ?wire 0 4 = h"
    by (subst py_slice_nonneg) (simp_all add: h(1))
  have s2: "py_slice ?wire 4 (4 + tl_len) = ?payload"
    by (subst py_slice_nonneg) (simp_all add: h(1) jh(1) tot nat_add_distrib)
  have s3: "py_slice ?payload 0 4 = jh"
    by (subst py_slice_nonneg) (simp_all add: jh(1))
  have s4: "py_slice ?payload 4 (4 + int (length jb)) = jb"
    by (subst py_slice_nonneg) (simp_all add: jh(1) nat_add_distrib)
  have s5: "drop (nat (4 + int (length jb))) ?payload = b'"
    by (simp add: jh(1) nat_add_distrib)
  have lw: "\<not> int (length ?wire) < 4" by (simp add: h(1))
  have lp: "\<not> int (length ?payload) < 4" by (simp add: jh(1))
  have jl: "\<not> (int (length jb) < 0 \<or> int (length jb) > tl_len - 4)" by (simp add: tot)
  have more: "(4 + int (length jb) < int (length ?payload)) = (b' \<noteq> [])"
    by (simp add: jh(1))
  have fj: "from_json loads jb = Inr m"
    by (simp add: from_json_def codec from_dict_to_dict)
  show ?thesis
    unfolding decode_message_def HEADER_SIZE_def JSON_LENGTH_SIZE_def Let_def
    by (simp only: lw s1 h(2) s2 lp s3 jh(2) jl s4 fj s5 more
          if_False sum.case not_not if_not_P if_P split: if_splits) (simp)
qed


lemma encode_message_spec:
  "encode_message dumps m binary_data =
     (case pack_u32 (4 + int (length (to_json dumps m)) + int (length (payload_bytes binary_data))) of
        Inl e \<Rightarrow> Inl e
      | Inr h \<Rightarrow>
          (case pack_u32 (int (length (to_json dumps m))) of
             Inl e \<Rightarrow> Inl e
           | Inr jh \<Rightarrow> Inr (h @ jh @ to_json dumps m @ payload_bytes binary_data)))"
  by (cases binary_data)
     (auto simp: encode_message_def payload_bytes_def Let_def JSON_LENGTH_SIZE_def split: sum.splits)

lemma decode_encoded_spec:
  assumes codec: "loads (to_json dumps m) = Inr (to_dict m)"
  shows "decode_encoded dumps loads m binary_data =
     (if 4 + int (length (to_json dumps m)) + int (length (payload_bytes binary_data)) \<le> MAX_MESSAGE_SIZE
      then Inr (m, if payload_bytes binary_data = [] then None else Some (payload_bytes binary_data))
      else if 4 + int (length (to_json dumps m)) + int (length (payload_bytes binary_data)) < 4294967296
      then Inl (ValueError (''Message too large: '' @
                  str_int (4 + int (length (to_json dumps m)) + int (length (payload_bytes binary_data))) @
                  '' bytes''))
      else Inl StructError)"
proof -
  let ?jb = "to_json dumps m"
  let ?b = "payload_bytes binary_data"
  let ?n = "4 + int (length ?jb) + int (length ?b)"
  show ?thesis
  proof (cases "?n < 4294967296")
    case False
    then have "pack_u32 ?n = Inl StructError" by (simp add: pack_u32_def)
    then have "decode_encoded dumps loads m binary_data = Inl StructError"
      by (simp add: decode_encoded_def encode_message_spec)
    moreover from False have "\<not> ?n \<le> MAX_MESSAGE_SIZE" by (simp add: MAX_MESSAGE_SIZE_def)
    ultimately show ?thesis using False by (simp only: if_False)
  next
    case True
    have "0 \<le> ?n" by simp
    from unpack_pack_u32[OF this True]
    obtain h where h: "pack_u32 ?n = Inr h" "length h = 4" "unpack_u32 h = Inr ?n" by blast
    have "0 \<le> int (length ?jb)" and "int (length ?jb) < 4294967296" using True by simp_all
    from unpack_pack_u32[OF this]
    obtain jh where jh: "pack_u32 (int (length ?jb)) = Inr jh" "length jh = 4"
        "unpack_u32 jh = Inr (int (length ?jb))" by blast
    have enc: "encode_message dumps m binary_data = Inr (h @ jh @ ?jb @ ?b)"
      by (simp add: encode_message_spec h(1) jh(1))
    have "decode_encoded dumps loads m binary_data = decode_message loads (h @ jh @ ?jb @ ?b)"
      by (simp add: decode_encoded_def enc)
    also have "\<dots> = (if ?n > MAX_MESSAGE_SIZE
            then Inl (ValueError (''Message too large: '' @ str_int ?n @ '' bytes''))
            else Inr (m, if ?b = [] then None else Some ?b))"
      by (rule decode_wire[where b' = "?b" and loads = loads and jb = "?jb" and m = m,
                           OF codec h(2,3) jh(2,3)]) simp
    finally show ?thesis using True by (simp add: not_less)
  qed
qed


lemma encode_empty_payload:
  "encode_message dumps m (Some []) = encode_message dumps m None"
proof -
  have "payload_bytes (Some []) = payload_bytes None" by (simp add: payload_bytes_def)
  then show ?thesis by (simp only: encode_message_spec)
qed

lemma demo_codec:
  "demo_loads (to_json demo_dumps demo_message) = Inr (to_dict demo_message)"
  "int (length (to_json demo_dumps demo_message)) = 109"
  by (simp_all add: to_json_def demo_dumps_def demo_loads_def demo_text_def)

text \<open>
  Claim C10, as stated, fails for a payload of 100 MiB: the frame is longer than
  \<open>MAX_MESSAGE_SIZE\<close> and \<open>decode_message\<close> raises \<open>ValueError\<close>.
\<close>

theorem protocol_round_trip_counterexample:
  "decode_encoded demo_dumps demo_loads demo_message (Some (replicate 104857600 0)) =
     Inl (ValueError (''Message too large: '' @ str_int 104857713 @ '' bytes'')) \<and>
   decode_encoded demo_dumps demo_loads demo_message (Some (replicate 104857600 0)) \<noteq>
     Inr (demo_message, Some (replicate 104857600 0)) \<and>
   replicate 104857600 (0 :: byte) \<noteq> []"
proof -
  have "decode_encoded demo_dumps demo_loads demo_message (Some (replicate 104857600 0)) =
     Inl (ValueError (''Message too large: '' @ str_int 104857713 @ '' bytes''))"
    unfolding decode_encoded_spec[where loads = demo_loads and dumps = demo_dumps and m = demo_message,
                OF demo_codec(1)]
    by (simp add: demo_codec(2) payload_bytes_def MAX_MESSAGE_SIZE_def)
  then show ?thesis by simp
qed

text \<open>
  Claim C10, amended.  For a message whose dictionary \<open>json.loads\<close> reads back from what
  \<open>json.dumps\<close> wrote, and a frame of at most \<open>MAX_MESSAGE_SIZE\<close> bytes after the length
  header (4 bytes, the JSON text and the payload), decoding the encoding of the message
  with a non-empty payload gives back the message and the payload, and with an empty or
  absent payload it gives the message and \<open>None\<close>; the encodings with an empty payload
  and with none are the same bytes.  A longer frame makes \<open>decode_message\<close> raise
  \<open>ValueError\<close>, and from \<open>2^32\<close> bytes on \<open>encode_message\<close> raises \<open>struct.error\<close>.
\<close>

theorem protocol_round_trip:
  assumes codec: "loads (to_json dumps m) = Inr (to_dict m)"
  shows "(let n = JSON_LENGTH_SIZE + int (length (to_json dumps m)) + int (length b)
          in decode_encoded dumps loads m (Some b) =
               (if n \<le> MAX_MESSAGE_SIZE then Inr (m, if b = [] then None else Some b)
                else if n < 4294967296
                then Inl (ValueError (''Message too large: '' @ str_int n @ '' bytes''))
                else Inl StructError)) \<and>
         (let n = JSON_LENGTH_SIZE + int (length (to_json dumps m))
          in decode_encoded dumps loads m None =
               (if n \<le> MAX_MESSAGE_SIZE then Inr (m, None)
                else if n < 4294967296
                then Inl (ValueError (''Message too large: '' @ str_int n @ '' bytes''))
                else Inl StructError)) \<and>
         encode_message dumps m (Some []) = encode_message dumps m None"
  unfolding Let_def JSON_LENGTH_SIZE_def
  using decode_encoded_spec[where loads = loads and dumps = dumps and m = m, OF codec, of "Some b"]
        decode_encoded_spec[where loads = loads and dumps = dumps and m = m, OF codec, of None]
  by (simp add: payload_bytes_def encode_empty_payload)

theorem protocol_round_trip_witness:
  "decode_encoded demo_dumps demo_loads demo_message (Some [1, 2, 3]) =
     Inr (demo_message, Some [1, 2, 3]) \<and>
   decode_encoded demo_dumps demo_loads demo_message (Some []) = Inr (demo_message, None) \<and>
   decode_encoded demo_dumps demo_loads demo_message None = Inr (demo_message, None) \<and>
   encode_message demo_dumps demo_message (Some []) = encode_message demo_dumps demo_message None"
  using protocol_round_trip[where loads = demo_loads and dumps = demo_dumps and m = demo_message,
          OF demo_codec(1), of "[1, 2, 3]"]
        protocol_round_trip[where loads = demo_loads and dumps = demo_dumps and m = demo_message,
          OF demo_codec(1), of "[]"]
  by (simp add: demo_codec(2) Let_def JSON_LENGTH_SIZE_def MAX_MESSAGE_SIZE_def)

end
